theory Spec2Isabelle
  imports Main "HOL-Library.Sublist"
begin

section \<open>Text as sequences of code points\<close>

text \<open>
  A Python \<^verbatim>\<open>str\<close> is a sequence of Unicode code points; \<^verbatim>\<open>len\<close> and slicing count
  code points. The model writes a string as the list of its code point numbers;
  \<open>ascii\<close> turns a literal of the theory into such a list.
\<close>

type_synonym ustr = "nat list"

definition ascii :: "string \<Rightarrow> ustr" where
  "ascii s = map of_char s"

text \<open>\<^verbatim>\<open>text.split(sep)\<close> for a one-character separator: always at least one piece.\<close>

fun split_on :: "'a \<Rightarrow> 'a list \<Rightarrow> 'a list list" where
  "split_on sep [] = [[]]"
| "split_on sep (x # xs) =
     (if x = sep then [] # split_on sep xs
      else (case split_on sep xs of [] \<Rightarrow> [[x]] | l # ls \<Rightarrow> (x # l) # ls))"

text \<open>\<^verbatim>\<open>sep.join(pieces)\<close>.\<close>

fun join :: "'a list \<Rightarrow> 'a list list \<Rightarrow> 'a list" where
  "join sep [] = []"
| "join sep [l] = l"
| "join sep (l # ls) = l @ sep @ join sep ls"

text \<open>
  The character tables of Python 3.11 (Unicode 14). White space (\<^verbatim>\<open>str.isspace\<close>, the
  class \<^verbatim>\<open>\s\<close>) is complete. Decimal digits (\<^verbatim>\<open>\d\<close>), word characters (\<^verbatim>\<open>\w\<close>:
  alphanumerics and the underscore) and lower-casing are those of the code points below
  U+0530, that is of Latin, Greek and Cyrillic text; a code point from U+0530 on counts
  as neither digit nor letter (which is right for the punctuation, currency signs and
  pictographs of the feeds, not for further scripts). Lower-casing covers Basic Latin,
  Latin-1 and the Cyrillic capitals U+0400 to U+042F.
\<close>

definition is_space :: "nat \<Rightarrow> bool" where
  "is_space c =
     ((9 \<le> c \<and> c \<le> 13) \<or> (28 \<le> c \<and> c \<le> 32) \<or> c = 133 \<or> c = 160 \<or> c = 5760 \<or>
      (8192 \<le> c \<and> c \<le> 8202) \<or> c = 8232 \<or> c = 8233 \<or> c = 8239 \<or> c = 8287 \<or> c = 12288)"

definition is_digit :: "nat \<Rightarrow> bool" where
  "is_digit c = (48 \<le> c \<and> c \<le> 57)"

definition in_ranges :: "nat \<Rightarrow> (nat \<times> nat) list \<Rightarrow> bool" where
  "in_ranges c rs = list_ex (\<lambda>r. fst r \<le> c \<and> c \<le> snd r) rs"

definition is_word :: "nat \<Rightarrow> bool" where
  "is_word c =
     (if c < 170 then (48 \<le> c \<and> c \<le> 57) \<or> (65 \<le> c \<and> c \<le> 90) \<or> c = 95 \<or> (97 \<le> c \<and> c \<le> 122)
      else if 1327 < c then False
      else in_ranges c
        [(1015, 1153), (1162, 1327), (170, 170), (178, 179), (181, 181), (185, 186),
         (188, 190), (192, 214), (216, 246), (248, 705), (710, 721), (736, 740), (748, 748),
         (750, 750), (880, 884), (886, 887), (890, 893), (895, 895), (902, 902), (904, 906),
         (908, 908), (910, 929), (931, 1013)])"

definition lower_cp :: "nat \<Rightarrow> nat" where
  "lower_cp c =
     (if 65 \<le> c \<and> c \<le> 90 then c + 32
      else if (192 \<le> c \<and> c \<le> 214) \<or> (216 \<le> c \<and> c \<le> 222) then c + 32
      else if 1024 \<le> c \<and> c \<le> 1039 then c + 80
      else if 1040 \<le> c \<and> c \<le> 1071 then c + 32
      else c)"

text \<open>\<^verbatim>\<open>s.lower()\<close>.\<close>

definition py_lower :: "ustr \<Rightarrow> ustr" where
  "py_lower s = map lower_cp s"

text \<open>\<^verbatim>\<open>s.strip()\<close>, \<^verbatim>\<open>s.rstrip(chars)\<close> and \<^verbatim>\<open>s.strip(chars)\<close>.\<close>

definition py_strip :: "ustr \<Rightarrow> ustr" where
  "py_strip s = rev (dropWhile is_space (rev (dropWhile is_space s)))"

definition rstrip_chars :: "ustr \<Rightarrow> ustr \<Rightarrow> ustr" where
  "rstrip_chars cs s = rev (dropWhile (\<lambda>c. c \<in> set cs) (rev s))"

definition strip_chars :: "ustr \<Rightarrow> ustr \<Rightarrow> ustr" where
  "strip_chars cs s = rstrip_chars cs (dropWhile (\<lambda>c. c \<in> set cs) s)"

text \<open>\<^verbatim>\<open>s.startswith(p)\<close>, \<^verbatim>\<open>s.endswith(p)\<close> and the substring test \<^verbatim>\<open>p in s\<close>.\<close>

definition startswith :: "ustr \<Rightarrow> ustr \<Rightarrow> bool" where
  "startswith s p = (take (length p) s = p)"

definition endswith :: "ustr \<Rightarrow> ustr \<Rightarrow> bool" where
  "endswith s p = (length p \<le> length s \<and> drop (length s - length p) s = p)"

fun contains :: "ustr \<Rightarrow> ustr \<Rightarrow> bool" where
  "contains [] p = (p = [])"
| "contains (x # xs) p = (startswith (x # xs) p \<or> contains xs p)"

text \<open>\<^verbatim>\<open>s.split()\<close>: the runs of characters that are not white space.\<close>

fun py_words :: "ustr \<Rightarrow> ustr \<Rightarrow> ustr list" where
  "py_words cur [] = (if cur = [] then [] else [rev cur])"
| "py_words cur (x # xs) =
     (if is_space x then (if cur = [] then py_words [] xs else rev cur # py_words [] xs)
      else py_words (x # cur) xs)"

text \<open>\<^verbatim>\<open>s.replace(old, new)\<close> for a non-empty \<open>old\<close>: the occurrences from the left,
  without overlap.\<close>

function replace_all :: "ustr \<Rightarrow> ustr \<Rightarrow> ustr \<Rightarrow> ustr" where
  "replace_all old new s =
     (case s of
        [] \<Rightarrow> []
      | x # xs \<Rightarrow>
          if old \<noteq> [] \<and> startswith s old then new @ replace_all old new (drop (length old) s)
          else x # replace_all old new xs)"
  by pat_completeness auto
termination
  by (relation "measure (\<lambda>(old, new, s). length s)") auto

declare replace_all.simps [simp del]

text \<open>\<^verbatim>\<open>list(dict.fromkeys(xs))\<close>: the first occurrence of each element, in order.\<close>

definition dedup_first :: "'a list \<Rightarrow> 'a list" where
  "dedup_first xs = foldl (\<lambda>acc x. if x \<in> set acc then acc else acc @ [x]) [] xs"

section \<open>Regular expressions\<close>

text \<open>
  The patterns of the program are values of the type \<open>rx\<close>, written after the pattern
  text. A cursor is the text that is left, with the character before it (\<open>None\<close> at the
  start of the text), which the assertions \<^verbatim>\<open>\b\<close>, \<^verbatim>\<open>^\<close> and the look-behinds read.
  \<open>rx_match r cur\<close> lists the cursors at which a match of \<open>r\<close> that starts at \<open>cur\<close>
  can end, in the order in which the backtracking matcher of \<^verbatim>\<open>re\<close> tries them: its
  head is the match that \<^verbatim>\<open>re\<close> reports. Repetition is greedy and applies to a character
  class, which is all the program's patterns need. In a pattern compiled with
  \<^verbatim>\<open>IGNORECASE\<close> a letter is \<open>LitI\<close> (\<open>OneOfI\<close> in a class): it matches the characters
  with the same lower case.
\<close>

datatype cc = Digit | Space | Word | AnyButNL | OneOf "nat list" | OneOfI "nat list"
  | Between nat nat | Neg cc | Either cc cc

fun cc_mem :: "cc \<Rightarrow> nat \<Rightarrow> bool" where
  "cc_mem Digit c = is_digit c"
| "cc_mem Space c = is_space c"
| "cc_mem Word c = is_word c"
| "cc_mem AnyButNL c = (c \<noteq> 10)"
| "cc_mem (OneOf cs) c = (c \<in> set cs)"
| "cc_mem (OneOfI cs) c = (lower_cp c \<in> set (map lower_cp cs))"
| "cc_mem (Between lo hi) c = (lo \<le> c \<and> c \<le> hi)"
| "cc_mem (Neg k) c = (\<not> cc_mem k c)"
| "cc_mem (Either k l) c = (cc_mem k c \<or> cc_mem l c)"

datatype rx =
    Eps
  | Lit nat
  | LitI nat
  | Cls cc
  | Seq rx rx
  | Alt rx rx
  | Opt rx
  | Rep cc nat "nat option"
  | WordB
  | Bol
  | Eol
  | Behind cc
  | NotBehind cc

type_synonym cursor = "nat option \<times> ustr"

text \<open>\<open>Rep k lo hi\<close> is \<^verbatim>\<open>k{lo,hi}\<close>, and \<^verbatim>\<open>k{lo,}\<close> when \<open>hi\<close> is \<open>None\<close>: the longest
  run first.\<close>

fun rep_cls :: "cc \<Rightarrow> nat \<Rightarrow> nat option \<Rightarrow> nat option \<Rightarrow> ustr \<Rightarrow> cursor list" where
  "rep_cls k lo hi p [] = (if lo = 0 then [(p, [])] else [])"
| "rep_cls k lo hi p (x # xs) =
     (if cc_mem k x \<and> hi \<noteq> Some 0
      then rep_cls k (lo - 1) (map_option (\<lambda>h. h - 1) hi) (Some x) xs else [])
     @ (if lo = 0 then [(p, x # xs)] else [])"

definition at_word_boundary :: "cursor \<Rightarrow> bool" where
  "at_word_boundary cur =
     ((case fst cur of None \<Rightarrow> False | Some x \<Rightarrow> is_word x)
      \<noteq> (case snd cur of [] \<Rightarrow> False | y # ys \<Rightarrow> is_word y))"

definition step_if :: "(nat \<Rightarrow> bool) \<Rightarrow> cursor \<Rightarrow> cursor list" where
  "step_if P cur = (case snd cur of [] \<Rightarrow> [] | x # xs \<Rightarrow> if P x then [(Some x, xs)] else [])"

primrec rx_match :: "rx \<Rightarrow> cursor \<Rightarrow> cursor list" where
  "rx_match Eps cur = [cur]"
| "rx_match (Lit c) cur = step_if (\<lambda>x. x = c) cur"
| "rx_match (LitI c) cur = step_if (\<lambda>x. lower_cp x = lower_cp c) cur"
| "rx_match (Cls k) cur = step_if (cc_mem k) cur"
| "rx_match (Seq a b) cur = concat (map (rx_match b) (rx_match a cur))"
| "rx_match (Alt a b) cur = rx_match a cur @ rx_match b cur"
| "rx_match (Opt a) cur = rx_match a cur @ [cur]"
| "rx_match (Rep k lo hi) cur = rep_cls k lo hi (fst cur) (snd cur)"
| "rx_match WordB cur = (if at_word_boundary cur then [cur] else [])"
| "rx_match Bol cur = (if fst cur = None then [cur] else [])"
| "rx_match Eol cur = (if snd cur = [] \<or> snd cur = [10] then [cur] else [])"
| "rx_match (Behind k) cur =
     (case fst cur of None \<Rightarrow> [] | Some x \<Rightarrow> if cc_mem k x then [cur] else [])"
| "rx_match (NotBehind k) cur =
     (case fst cur of None \<Rightarrow> [cur] | Some x \<Rightarrow> if cc_mem k x then [] else [cur])"

text \<open>Sequences and alternatives of several patterns, words, and the usual repetitions.\<close>

fun seqs :: "rx list \<Rightarrow> rx" where
  "seqs [] = Eps"
| "seqs [r] = r"
| "seqs (r # rs) = Seq r (seqs rs)"

fun alts :: "rx list \<Rightarrow> rx" where
  "alts [] = Cls (Between 1 0)"
| "alts [r] = r"
| "alts (r # rs) = Alt r (alts rs)"

definition lits :: "ustr \<Rightarrow> rx" where
  "lits w = seqs (map Lit w)"

definition litsI :: "ustr \<Rightarrow> rx" where
  "litsI w = seqs (map LitI w)"

definition many :: "cc \<Rightarrow> rx" where
  "many k = Rep k 0 None"

definition many1 :: "cc \<Rightarrow> rx" where
  "many1 k = Rep k 1 None"

definition exactly :: "nat \<Rightarrow> cc \<Rightarrow> rx" where
  "exactly n k = Rep k n (Some n)"

text \<open>\<^verbatim>\<open>re.search\<close>: the leftmost start at which the pattern matches, as the number of
  characters before it, with the cursor at the end of the match.\<close>

fun re_search :: "rx \<Rightarrow> nat option \<Rightarrow> ustr \<Rightarrow> (nat \<times> cursor) option" where
  "re_search r p [] = (case rx_match r (p, []) of [] \<Rightarrow> None | c # _ \<Rightarrow> Some (0, c))"
| "re_search r p (x # xs) =
     (case rx_match r (p, x # xs) of
        [] \<Rightarrow> (case re_search r (Some x) xs of None \<Rightarrow> None | Some (i, c) \<Rightarrow> Some (Suc i, c))
      | c # _ \<Rightarrow> Some (0, c))"

definition re_found :: "rx \<Rightarrow> ustr \<Rightarrow> bool" where
  "re_found r s = (re_search r None s \<noteq> None)"

text \<open>\<^verbatim>\<open>re.fullmatch\<close>: some match from the start ends at the end.\<close>

definition re_fullmatch :: "rx \<Rightarrow> ustr \<Rightarrow> bool" where
  "re_fullmatch r s = list_ex (\<lambda>c. snd c = []) (rx_match r (None, s))"

text \<open>
  \<^verbatim>\<open>re.sub(pattern, rep, s)\<close>: the matches from the left, without overlap, each
  replaced by \<open>rep\<close>. No pattern of the program matches the empty string; for an empty
  match the replacement is put in and the scan moves one character on.
\<close>

function re_sub :: "rx \<Rightarrow> ustr \<Rightarrow> nat option \<Rightarrow> ustr \<Rightarrow> ustr" where
  "re_sub r rep p s =
     (case rx_match r (p, s) of
        c # _ \<Rightarrow>
          (if length (snd c) < length s then rep @ re_sub r rep (fst c) (snd c)
           else (case s of [] \<Rightarrow> rep | x # xs \<Rightarrow> rep @ x # re_sub r rep (Some x) xs))
      | [] \<Rightarrow> (case s of [] \<Rightarrow> [] | x # xs \<Rightarrow> x # re_sub r rep (Some x) xs))"
  by pat_completeness auto
termination
  by (relation "measure (\<lambda>(r, rep, p, s). length s)") auto

declare re_sub.simps [simp del]

text \<open>
  \<^verbatim>\<open>re.split(pattern, s)\<close> for a pattern without groups: the pieces between the
  matches; \<open>cur\<close> holds the piece being read, reversed.
\<close>

function re_split :: "rx \<Rightarrow> nat option \<Rightarrow> ustr \<Rightarrow> ustr \<Rightarrow> ustr list" where
  "re_split r p s cur =
     (case rx_match r (p, s) of
        c # _ \<Rightarrow>
          (if length (snd c) < length s then rev cur # re_split r (fst c) (snd c) []
           else (case s of [] \<Rightarrow> [rev cur] | x # xs \<Rightarrow> re_split r (Some x) xs (x # cur)))
      | [] \<Rightarrow> (case s of [] \<Rightarrow> [rev cur] | x # xs \<Rightarrow> re_split r (Some x) xs (x # cur)))"
  by pat_completeness auto
termination
  by (relation "measure (\<lambda>(r, p, s, cur). length s)") auto

declare re_split.simps [simp del]

text \<open>
  \<^verbatim>\<open>re.search(pattern, s).group(1)\<close> for a pattern that is a prefix followed by its
  one group: the text of the group in the first match, if there is a match.
\<close>

fun first_group :: "rx \<Rightarrow> cursor list \<Rightarrow> ustr option" where
  "first_group grp [] = None"
| "first_group grp (c # cs) =
     (case rx_match grp c of
        [] \<Rightarrow> first_group grp cs
      | e # _ \<Rightarrow> Some (take (length (snd c) - length (snd e)) (snd c)))"

fun search_group :: "rx \<Rightarrow> rx \<Rightarrow> nat option \<Rightarrow> ustr \<Rightarrow> ustr option" where
  "search_group pre grp p [] = first_group grp (rx_match pre (p, []))"
| "search_group pre grp p (x # xs) =
     (case first_group grp (rx_match pre (p, x # xs)) of
        Some g \<Rightarrow> Some g
      | None \<Rightarrow> search_group pre grp (Some x) xs)"

section \<open>The patterns of the program\<close>

text \<open>
  Cyrillic words are written by their code points, with a transliteration beside them.
  In the comments that quote a pattern, \<^verbatim>\<open>%\<close> stands for the backslash and \<^verbatim>\<open>*\<close> for the soft
  or hard sign.
\<close>

text \<open>\<^verbatim>\<open>https?://\S+|t\.me/\S+\<close> (\<^verbatim>\<open>strip_urls\<close>).\<close>

definition URL_RE :: rx where
  "URL_RE = Alt (seqs [lits (ascii ''http''), Opt (Lit 115), lits (ascii ''://''), many1 (Neg Space)])
                (seqs [lits (ascii ''t.me/''), many1 (Neg Space)])"

text \<open>\<^verbatim>\<open>@[A-Za-z0-9_]+\<close> (\<^verbatim>\<open>remove_mentions\<close>).\<close>

definition NAME_CHAR :: cc where
  "NAME_CHAR = Either (Between 65 90) (Either (Between 97 122) (Either (Between 48 57) (OneOf [95])))"

definition MENTION_RE :: rx where
  "MENTION_RE = Seq (Lit 64) (many1 NAME_CHAR)"

text \<open>\<^verbatim>\<open>(?:^|\s)#[^\s#]+\<close> (\<^verbatim>\<open>strip_hashtags_simple\<close>).\<close>

definition HASHTAG_RE :: rx where
  "HASHTAG_RE = seqs [Alt Bol (Cls Space), Lit 35, many1 (Neg (Either Space (OneOf [35])))]"

text \<open>\<^verbatim>\<open>[ \t]+\<close> and \<^verbatim>\<open>\n{3,}\<close> (\<^verbatim>\<open>collapse_ws_keep_newlines\<close>).\<close>

definition BLANKS_RE :: rx where
  "BLANKS_RE = many1 (OneOf [32, 9])"

definition NEWLINES3_RE :: rx where
  "NEWLINES3_RE = Rep (OneOf [10]) 3 None"

text \<open>\<^verbatim>\<open>(?<=[\.\!\?...])\s+|\n+\<close>, the last character of the class being the ellipsis
  U+2026 (\<^verbatim>\<open>sentences\<close>).\<close>

definition SENTENCE_END_RE :: rx where
  "SENTENCE_END_RE = Alt (Seq (Behind (OneOf [46, 33, 63, 8230])) (many1 Space)) (many1 (OneOf [10]))"

text \<open>\<^verbatim>\<open>(?i)\bpinned\b|\bzakrepil[aio]?\b|\bzakrepleno\b\<close> (\<^verbatim>\<open>PINNED_PAT\<close>).\<close>

definition PINNED_PAT :: rx where
  "PINNED_PAT = alts [
     seqs [WordB, litsI (ascii ''pinned''), WordB],
     seqs [WordB, litsI [1079, 1072, 1082, 1088, 1077, 1087, 1080, 1083],
           Opt (Cls (OneOfI [1072, 1080, 1086])), WordB],
     seqs [WordB, litsI [1079, 1072, 1082, 1088, 1077, 1087, 1083, 1077, 1085, 1086], WordB]]"

text \<open>The patterns of \<^verbatim>\<open>SENDER_PATTERNS\<close> and \<^verbatim>\<open>INVITE_CUT_MARKERS\<close>, all with
  \<^verbatim>\<open>(?i)\<close>.\<close>

definition SENDER_PATTERNS :: "rx list" where
  "SENDER_PATTERNS = [
     seqs [WordB, litsI [1087, 1086, 1076, 1087, 1080, 1089, 1095, 1080, 1082], many1 Space,
         litsI [1087, 1088, 1080, 1089, 1083, 1072, 1083], Opt (Cls (OneOfI [1072, 1080])),
         WordB, many AnyButNL],
       \<comment> \<open>%bpodpischik%s+prislal[ai]?%b.*\<close>
     seqs [WordB, litsI [1087, 1086, 1076, 1087, 1080, 1089, 1095, 1080, 1094, 1072], many1
         Space, litsI [1087, 1088, 1080, 1089, 1083, 1072, 1083], Opt (Cls (OneOfI [1072,
         1080])), WordB, many AnyButNL],
       \<comment> \<open>%bpodpischitsa%s+prislal[ai]?%b.*\<close>
     seqs [WordB, litsI [1087, 1088, 1080, 1089, 1083, 1072, 1083], Opt (Cls (OneOfI [1072,
         1080])), WordB, many AnyButNL],
       \<comment> \<open>%bprislal[ai]?%b.*\<close>
     seqs [WordB, litsI [1085, 1072, 1084], many1 Space, litsI [1087, 1080, 1096, 1091, 1090],
         many AnyButNL],
       \<comment> \<open>%bnam%s+pishut.*\<close>
     seqs [WordB, litsI [1089, 1086, 1086, 1073, 1097, 1072, 1102, 1090], many AnyButNL],
       \<comment> \<open>%bsoobshchayut.*\<close>
     seqs [WordB, litsI [1087, 1088, 1080, 1089, 1083, 1072, 1085, 1086], many1 Space, litsI
         [1095, 1077, 1088, 1077, 1079], many1 Space, litsI [1073, 1086, 1090, 1072], many
         AnyButNL],
       \<comment> \<open>%bprislano%s+cherez%s+bota.*\<close>
     seqs [WordB, litsI [1074], many1 Space, litsI [1073, 1086, 1090], many1 Space, litsI
         [1087, 1088, 1080, 1089, 1083, 1072, 1083], Opt (Cls (OneOfI [1072, 1080])), WordB,
         many AnyButNL]
       \<comment> \<open>%bv%s+bot%s+prislal[ai]?%b.*\<close>]"

definition INVITE_CUT_MARKERS :: "rx list" where
  "INVITE_CUT_MARKERS = [
     seqs [WordB, litsI [1087, 1086, 1076, 1087, 1080, 1089, 1099, 1074, 1072, 1081, 1090,
         1077, 1089], Opt (LitI 1100), WordB],
       \<comment> \<open>%bpodpisyvajtes*?%b\<close>
     seqs [WordB, litsI [1087, 1086, 1076, 1087, 1080, 1089, 1099, 1074, 1072, 1081, 1089,
         1103], WordB],
       \<comment> \<open>%bpodpisyvajsya%b\<close>
     seqs [WordB, litsI [1087, 1086, 1076, 1087, 1080, 1089, 1072, 1090, 1100, 1089, 1103],
         WordB],
       \<comment> \<open>%bpodpisat*sya%b\<close>
     seqs [WordB, litsI [1087, 1086, 1076, 1087, 1080, 1096, 1080, 1089, 1100], WordB],
       \<comment> \<open>%bpodpishis*%b\<close>
     seqs [WordB, litsI [1074, 1089, 1090, 1091, 1087, 1072, 1081], Opt (litsI [1090, 1077]),
         WordB],
       \<comment> \<open>%bvstupaj(te)?%b\<close>
     seqs [WordB, litsI [1086, 1092, 1086, 1088, 1084, 1083, 1103, 1081], Opt (litsI [1090,
         1077]), WordB]
       \<comment> \<open>%boformlyaj(te)?%b\<close>]"

text \<open>
  The alternatives of \<^verbatim>\<open>AD_KEYWORDS\<close>: those that TotalNews17 and TotalNews19 share,
  in the order of the pattern, then the ones that only TotalNews17 and only TotalNews19
  have at the end of the group. The pattern is \<^verbatim>\<open>(?i)\b(...)\b\<close>.
\<close>

definition AD_WORDS :: "rx list" where
  "AD_WORDS = [
     litsI [1088, 1077, 1082, 1083, 1072, 1084], \<comment> \<open>reklam\<close>
     litsI [1087, 1088, 1086, 1084, 1086], \<comment> \<open>promo\<close>
     litsI [1087, 1072, 1088, 1090, 1085, 1077, 1088, 1089, 1082],
         \<comment> \<open>partnersk\<close>
     litsI [1087, 1072, 1088, 1090, 1085, 1105, 1088, 1089, 1082],
         \<comment> \<open>partnyorsk\<close>
     litsI [1089, 1087, 1086, 1085, 1089, 1086, 1088], \<comment> \<open>sponsor\<close>
     litsI [1089, 1082, 1080, 1076, 1082], \<comment> \<open>skidk\<close>
     seqs [litsI [1072, 1082, 1094, 1080], Cls (OneOfI [1103, 1080])],
         \<comment> \<open>aktsi[yai]\<close>
     litsI [1088, 1072, 1089, 1087, 1088, 1086, 1076, 1072, 1078],
         \<comment> \<open>rasprodazh\<close>
     litsI [1079, 1072, 1082, 1072, 1079], \<comment> \<open>zakaz\<close>
     litsI [1079, 1072, 1082, 1072, 1079, 1099, 1074, 1072, 1081],
         \<comment> \<open>zakazyvaj\<close>
     litsI [1086, 1092, 1086, 1088, 1084, 1080, 1090, 1100], \<comment> \<open>oformit*\<close>
     litsI [1078, 1076, 1077, 1084, 32, 1074, 1072, 1089], \<comment> \<open>zhdem vas\<close>
     litsI [1078, 1076, 1105, 1084, 32, 1074, 1072, 1089], \<comment> \<open>zhdyom vas\<close>
     litsI [1076, 1086, 1089, 1090, 1072, 1074, 1082], \<comment> \<open>dostavk\<close>
     litsI [1089, 1072, 1084, 1086, 1074, 1099, 1074, 1086, 1079],
         \<comment> \<open>samovyvoz\<close>
     litsI [1084, 1077, 1085, 1102], \<comment> \<open>menyu\<close>
     litsI [1072, 1089, 1089, 1086, 1088, 1090, 1080, 1084, 1077, 1085, 1090],
         \<comment> \<open>assortiment\<close>
     litsI [1082, 1072, 1090, 1072, 1083, 1086, 1075], \<comment> \<open>katalog\<close>
     litsI [1082, 1072, 1092, 1077], \<comment> \<open>kafe\<close>
     litsI [1087, 1077, 1082, 1072, 1088, 1085], \<comment> \<open>pekarn\<close>
     litsI [1082, 1086, 1092, 1077, 1081, 1085], \<comment> \<open>kofejn\<close>
     litsI [1089, 1072, 1083, 1086, 1085], \<comment> \<open>salon\<close>
     litsI [1073, 1072, 1088, 1073, 1077, 1088, 1096, 1086, 1087],
         \<comment> \<open>barbershop\<close>
     litsI [1087, 1072, 1088, 1080, 1082, 1084, 1072, 1093, 1077, 1088],
         \<comment> \<open>parikmakher\<close>
     litsI [1089, 1090, 1091, 1076, 1080, 1103], \<comment> \<open>studiya\<close>
     litsI [1084, 1072, 1085, 1080, 1082, 1102, 1088], \<comment> \<open>manikyur\<close>
     litsI [1085, 1086, 1075, 1090, 1077, 1074], \<comment> \<open>nogtev\<close>
     litsI [1084, 1072, 1089, 1089, 1072, 1078], \<comment> \<open>massazh\<close>
     litsI [1082, 1091, 1088, 1089, 1099], \<comment> \<open>kursy\<close>
     litsI [1090, 1088, 1077, 1085, 1080, 1085, 1075], \<comment> \<open>trening\<close>
     litsI [1096, 1082, 1086, 1083, 1072], \<comment> \<open>shkola\<close>
     litsI [1089, 1077, 1082, 1094, 1080, 1080], \<comment> \<open>sektsii\<close>
     litsI [1084, 1072, 1075, 1072, 1079, 1080, 1085], \<comment> \<open>magazin\<close>
     litsI [1073, 1091, 1090, 1080, 1082], \<comment> \<open>butik\<close>
     litsI [115, 104, 111, 119, 114, 111, 111, 109], \<comment> \<open>showroom\<close>
     litsI [1072, 1088, 1077, 1085, 1076, 1072], \<comment> \<open>arenda\<close>
     litsI [1089, 1076, 1072, 1084], \<comment> \<open>sdam\<close>
     litsI [1089, 1076, 1072, 1077, 1090, 1089, 1103], \<comment> \<open>sdaetsya\<close>
     litsI [1089, 1076, 1072, 1105, 1090, 1089, 1103], \<comment> \<open>sdayotsya\<close>
     litsI [1087, 1088, 1086, 1076, 1072, 1084], \<comment> \<open>prodam\<close>
     litsI [1082, 1091, 1087, 1083, 1102], \<comment> \<open>kuplyu\<close>
     litsI [1082, 1091, 1087, 1080, 1090, 1100], \<comment> \<open>kupit*\<close>
     litsI [1073, 1072, 1088, 1072, 1093, 1086, 1083, 1082, 1072],
         \<comment> \<open>barakholka\<close>
     seqs [litsI [1086, 1073, 1098, 1103, 1074, 1083, 1077, 1085, 1080], Cls (OneOfI [1077,
         1103])], \<comment> \<open>ob**yavleni[eya]\<close>
     litsI [1086, 1073, 1098, 1103, 1074, 1099], \<comment> \<open>ob**yavy\<close>
     litsI [1079, 1072, 1082, 1072, 1078, 1080, 1090, 1077], \<comment> \<open>zakazhite\<close>
     litsI [1094, 1077, 1085, 1072], \<comment> \<open>tsena\<close>
     litsI [1087, 1088, 1072, 1081, 1089], \<comment> \<open>prajs\<close>
     litsI [1089, 1082, 1086, 1083, 1100, 1082, 1086, 32, 1089, 1090, 1086, 1080, 1090],
         \<comment> \<open>skol*ko stoit\<close>
     litsI [1087, 1088, 1080, 1075, 1083, 1072, 1096, 1072, 1077, 1084],
         \<comment> \<open>priglashaem\<close>
     litsI [1087, 1088, 1080, 1075, 1083, 1072, 1096, 1072, 1102]
         \<comment> \<open>priglashayu\<close>]"

definition AD_WORDS17 :: "rx list" where
  "AD_WORDS17 = [
     litsI [1074, 32, 1083, 1080, 1095, 1082, 1091], \<comment> \<open>v lichku\<close>
     litsI [1074, 32, 1083, 1089] \<comment> \<open>v ls\<close>]"

definition AD_WORDS19 :: "rx list" where
  "AD_WORDS19 = [
     litsI [1087, 1088, 1080, 1093, 1086, 1076, 1080, 1090, 1077],
         \<comment> \<open>prikhodite\<close>
     litsI [1087, 1080, 1096, 1080, 1090, 1077], \<comment> \<open>pishite\<close>
     litsI [1079, 1072, 1087, 1080, 1089, 1100], \<comment> \<open>zapis*\<close>
     litsI [1079, 1072, 1087, 1080, 1089, 1099, 1074, 1072, 1081, 1090, 1077, 1089, 1100],
         \<comment> \<open>zapisyvajtes*\<close>
     litsI [1079, 1074, 1086, 1085, 1080, 1090, 1077], \<comment> \<open>zvonite\<close>
     litsI [1074, 1077, 1076, 1077, 1090, 32, 1085, 1072, 1073, 1086, 1088],
         \<comment> \<open>vedet nabor\<close>
     litsI [1074, 1077, 1076, 1091, 32, 1085, 1072, 1073, 1086, 1088],
         \<comment> \<open>vedu nabor\<close>
     litsI [1084, 1099, 32, 1086, 1090, 1082, 1088, 1099, 1083, 1080, 1089, 1100],
         \<comment> \<open>my otkrylis*\<close>
     litsI [1087, 1088, 1086, 1094, 1077, 1076, 1091, 1088, 1072],
         \<comment> \<open>protsedura\<close>
     litsI [1089, 1082, 1080, 1076, 1082, 1072], \<comment> \<open>skidka\<close>
     litsI [1089, 1090, 1086, 1080, 1084, 1086, 1089, 1090, 1100],
         \<comment> \<open>stoimost*\<close>
     litsI [1072, 1082, 1094, 1080, 1103] \<comment> \<open>aktsiya\<close>]"

definition CTA_WORDS :: "rx list" where
  "CTA_WORDS = [
     seqs [litsI [1087, 1088, 1080, 1075, 1083, 1072, 1096, 1072], alts [litsI [1102],
         litsI [1077, 1084]]], \<comment> \<open>priglasha(yu|em)\<close>
     litsI [1087, 1088, 1080, 1093, 1086, 1076, 1080, 1090, 1077],
         \<comment> \<open>prikhodite\<close>
     litsI [1087, 1080, 1096, 1080, 1090, 1077], \<comment> \<open>pishite\<close>
     litsI [1079, 1072, 1087, 1080, 1089, 1100], \<comment> \<open>zapis*\<close>
     litsI [1079, 1072, 1087, 1080, 1089, 1099, 1074, 1072, 1081, 1090, 1077, 1089, 1100],
         \<comment> \<open>zapisyvajtes*\<close>
     litsI [1074, 1077, 1076, 1077, 1090, 32, 1085, 1072, 1073, 1086, 1088],
         \<comment> \<open>vedet nabor\<close>
     litsI [1074, 1077, 1076, 1091, 32, 1085, 1072, 1073, 1086, 1088],
         \<comment> \<open>vedu nabor\<close>
     litsI [1079, 1074, 1086, 1085, 1080, 1090, 1077], \<comment> \<open>zvonite\<close>
     litsI [1074, 32, 1083, 1080, 1095, 1082, 1091], \<comment> \<open>v lichku\<close>
     litsI [1074, 32, 1083, 1089], \<comment> \<open>v ls\<close>
     litsI [1074, 32, 1076, 1080, 1088, 1077, 1082, 1090], \<comment> \<open>v direkt\<close>
     litsI [1084, 1099, 32, 1086, 1090, 1082, 1088, 1099, 1083, 1080, 1089, 1100],
         \<comment> \<open>my otkrylis*\<close>
     litsI [1072, 1082, 1094, 1080, 1103], \<comment> \<open>aktsiya\<close>
     litsI [1089, 1082, 1080, 1076, 1082, 1072], \<comment> \<open>skidka\<close>
     litsI [1089, 1090, 1086, 1080, 1084, 1086, 1089, 1090, 1100],
         \<comment> \<open>stoimost*\<close>
     litsI [1094, 1077, 1085, 1072] \<comment> \<open>tsena\<close>]"

definition AD_KEYWORDS :: rx where
  "AD_KEYWORDS = seqs [WordB, alts (AD_WORDS @ AD_WORDS19), WordB]"

definition AD_KEYWORDS17 :: rx where
  "AD_KEYWORDS17 = seqs [WordB, alts (AD_WORDS @ AD_WORDS17), WordB]"

text \<open>\<^verbatim>\<open>CTA_RE\<close> of TotalNews19, \<^verbatim>\<open>(?i)\b(...)\b\<close>.\<close>

definition CTA_RE :: rx where
  "CTA_RE = seqs [WordB, alts CTA_WORDS, WordB]"

text \<open>\<^verbatim>\<open>(?<!\d)(?:\+7|8)\s?\(?\d{3}\)?[\s\-]?\d{3}[\s\-]?\d{2}[\s\-]?\d{2}\<close>.\<close>

definition PHONE_RE :: rx where
  "PHONE_RE = seqs [NotBehind Digit, Alt (lits (ascii ''+7'')) (Lit 56), Opt (Cls Space),
     Opt (Lit 40), exactly 3 Digit, Opt (Lit 41),
     Opt (Cls (Either Space (OneOf [45]))), exactly 3 Digit,
     Opt (Cls (Either Space (OneOf [45]))), exactly 2 Digit,
     Opt (Cls (Either Space (OneOf [45]))), exactly 2 Digit]"

text \<open>\<^verbatim>\<open>\b\d{2,}[ %u00A0]?(?:R|rub\.?|rublej)\b\<close> with \<^verbatim>\<open>IGNORECASE\<close>, \<^verbatim>\<open>R\<close> being the
  rouble sign U+20BD.\<close>

definition PRICE_RE :: rx where
  "PRICE_RE = seqs [WordB, Rep Digit 2 None, Opt (Cls (OneOf [32, 160])),
     alts [LitI 8381,
           seqs [litsI [1088, 1091, 1073], Opt (Lit 46)],
           litsI [1088, 1091, 1073, 1083, 1077, 1081]],
     WordB]"

text \<open>\<^verbatim>\<open>\b(?:ezhednevno|s\s*\d{1,2}[:\.]*\d{2}\s*do\s*\d{1,2}[:\.]*\d{2})\b\<close> with
  \<^verbatim>\<open>IGNORECASE\<close> (TotalNews19); TotalNews17 has \<^verbatim>\<open>[:\.]\<close> once in place of
  \<^verbatim>\<open>[:\.]*\<close>.\<close>

definition WORKTIME_RE :: rx where
  "WORKTIME_RE = seqs [WordB,
     Alt (litsI [1077, 1078, 1077, 1076, 1085, 1077, 1074, 1085, 1086])
         (seqs [LitI 1089, many Space, Rep Digit 1 (Some 2), many (OneOf [58, 46]),
                exactly 2 Digit, many Space, litsI [1076, 1086], many Space,
                Rep Digit 1 (Some 2), many (OneOf [58, 46]), exactly 2 Digit]),
     WordB]"

definition WORKTIME_RE17 :: rx where
  "WORKTIME_RE17 = seqs [WordB,
     Alt (litsI [1077, 1078, 1077, 1076, 1085, 1077, 1074, 1085, 1086])
         (seqs [LitI 1089, many Space, Rep Digit 1 (Some 2), Cls (OneOf [58, 46]),
                exactly 2 Digit, many Space, litsI [1076, 1086], many Space,
                Rep Digit 1 (Some 2), Cls (OneOf [58, 46]), exactly 2 Digit]),
     WordB]"

text \<open>\<^verbatim>\<open>\.(jpe?g|png|webp|gif)(?:\?.*)?$\<close>, \<^verbatim>\<open>\.(mp4|mov|webm)(?:\?.*)?$\<close> and
  \<^verbatim>\<open>^https?://[^/]*telegram[^/]*\.(?:org|cdn)/.*\<close>, all with \<^verbatim>\<open>IGNORECASE\<close>.\<close>

definition IMG_EXT_RE :: rx where
  "IMG_EXT_RE = seqs [Lit 46,
     alts [seqs [litsI (ascii ''jp''), Opt (LitI 101), LitI 103], litsI (ascii ''png''),
           litsI (ascii ''webp''), litsI (ascii ''gif'')],
     Opt (Seq (Lit 63) (many AnyButNL)), Eol]"

definition VIDEO_EXT_RE :: rx where
  "VIDEO_EXT_RE = seqs [Lit 46,
     alts [litsI (ascii ''mp4''), litsI (ascii ''mov''), litsI (ascii ''webm'')],
     Opt (Seq (Lit 63) (many AnyButNL)), Eol]"

definition TELEGRAM_CDN_RE :: rx where
  "TELEGRAM_CDN_RE = seqs [Bol, litsI (ascii ''http''), Opt (LitI 115), lits (ascii ''://''),
     many (Neg (OneOf [47])), litsI (ascii ''telegram''), many (Neg (OneOf [47])), Lit 46,
     Alt (litsI (ascii ''org'')) (litsI (ascii ''cdn'')), Lit 47, many AnyButNL]"

text \<open>\<^verbatim>\<open>[A-Za-z0-9_]{5,32}\<close> (\<^verbatim>\<open>normalize_chat_id\<close>).\<close>

definition USERNAME_RE :: rx where
  "USERNAME_RE = Rep NAME_CHAR 5 (Some 32)"

text \<open>
  \<^verbatim>\<open>background-image:\s*url\(['"]?(https?://[^'"\)]+)\<close> in two parts: what stands before
  the group, and the group.
\<close>

definition BG_IMAGE_PRE :: rx where
  "BG_IMAGE_PRE = seqs [lits (ascii ''background-image:''), many Space, lits (ascii ''url(''),
     Opt (Cls (OneOf [39, 34]))]"

definition BG_IMAGE_URL :: rx where
  "BG_IMAGE_URL = seqs [lits (ascii ''http''), Opt (Lit 115), lits (ascii ''://''),
     many1 (Neg (OneOf [39, 34, 41]))]"

section \<open>The sanitization chain\<close>

definition strip_urls :: "ustr \<Rightarrow> ustr" where
  "strip_urls t = py_strip (re_sub URL_RE [] None t)"

definition remove_mentions :: "ustr \<Rightarrow> ustr" where
  "remove_mentions t = py_strip (re_sub MENTION_RE [] None t)"

definition strip_hashtags_simple :: "ustr \<Rightarrow> ustr" where
  "strip_hashtags_simple t = re_sub HASHTAG_RE [] None t"

definition collapse_ws_keep_newlines :: "ustr \<Rightarrow> ustr" where
  "collapse_ws_keep_newlines t =
     (let t1 = re_sub BLANKS_RE [32] None t;
          t2 = re_sub NEWLINES3_RE [10, 10] None t1
      in py_strip t2)"

text \<open>The loop of \<^verbatim>\<open>remove_sender_phrases\<close>: one substitution per pattern, in order.\<close>

definition remove_sender_phrases :: "ustr \<Rightarrow> ustr" where
  "remove_sender_phrases t = foldl (\<lambda>out p. re_sub p [] None out) t SENDER_PATTERNS"

text \<open>
  \<^verbatim>\<open>drop_after_subscribe_calls\<close>: \<open>idx\<close> starts at the length of the text and is
  lowered to the start of the first match of each marker; the text before \<open>idx\<close> then
  loses the trailing characters of \<^verbatim>\<open>" .,!"\<close>, the dash U+2014 and the hyphen.
\<close>

definition cut_index :: "ustr \<Rightarrow> nat" where
  "cut_index t =
     foldl (\<lambda>idx pat. case re_search pat None t of None \<Rightarrow> idx | Some (i, c) \<Rightarrow> min idx i)
       (length t) INVITE_CUT_MARKERS"

definition drop_after_subscribe_calls :: "ustr \<Rightarrow> ustr" where
  "drop_after_subscribe_calls t =
     (if t = [] then t else rstrip_chars [32, 46, 44, 33, 8212, 45] (take (cut_index t) t))"

definition sanitize :: "ustr \<Rightarrow> ustr" where
  "sanitize t =
     (let t1 = strip_urls t;
          t2 = remove_mentions t1;
          t3 = strip_hashtags_simple t2;
          t4 = remove_sender_phrases t3;
          t5 = drop_after_subscribe_calls t4
      in collapse_ws_keep_newlines t5)"

text \<open>\<^verbatim>\<open>sentences\<close>: the pieces between sentence ends, stripped, the blank ones left
  out.\<close>

definition sentences :: "ustr \<Rightarrow> ustr list" where
  "sentences text =
     map py_strip (filter (\<lambda>p. p \<noteq> [] \<and> py_strip p \<noteq> []) (re_split SENTENCE_END_RE None text []))"

text \<open>\<^verbatim>\<open>build_caption\<close>. The separator is a space, the dash U+2014 and a space.\<close>

definition build_caption :: "ustr \<Rightarrow> ustr \<Rightarrow> ustr" where
  "build_caption title0 summary0 =
     (let title1 = sanitize title0;
          summary1 = sanitize summary0;
          s = sentences summary1;
          title = (if title1 = [] then (if s \<noteq> [] then hd s else take 140 summary1) else title1);
          summary = (if title1 = [] then (if length s > 1 then join [32] (tl s) else [])
                     else summary1);
          detail = py_strip (title @ (if summary \<noteq> [] then [32, 8212, 32] @ summary else []))
      in take 1024 detail)"

section \<open>The advertisement classifier\<close>

text \<open>\<^verbatim>\<open>looks_like_ad\<close> of TotalNews19: five detectors on the lower-cased text.\<close>

definition looks_like_ad :: "ustr \<Rightarrow> bool" where
  "looks_like_ad t =
     (if t = [] then False
      else
        (let low = py_lower t;
             signals = (0::nat);
             signals = (if re_found AD_KEYWORDS low then signals + 1 else signals);
             signals = (if re_found CTA_RE low then signals + 1 else signals);
             signals = (if re_found PHONE_RE low then signals + 1 else signals);
             signals = (if re_found PRICE_RE low then signals + 1 else signals);
             signals = (if re_found WORKTIME_RE low then signals + 1 else signals)
         in signals \<ge> 2))"

text \<open>\<^verbatim>\<open>looks_like_ad\<close> of TotalNews17 (and TotalNews16): four detectors.\<close>

definition looks_like_ad17 :: "ustr \<Rightarrow> bool" where
  "looks_like_ad17 t =
     (if t = [] then False
      else
        (let low = py_lower t;
             signals = (0::nat);
             signals = (if re_found AD_KEYWORDS17 low then signals + 1 else signals);
             signals = (if re_found PHONE_RE low then signals + 1 else signals);
             signals = (if re_found PRICE_RE low then signals + 1 else signals);
             signals = (if re_found WORKTIME_RE17 low then signals + 1 else signals)
         in signals \<ge> 2))"

text \<open>The five detectors of TotalNews19, as a list of tests on the lower-cased text.\<close>

definition detectors :: "(ustr \<Rightarrow> bool) list" where
  "detectors = [re_found AD_KEYWORDS, re_found CTA_RE, re_found PHONE_RE, re_found PRICE_RE,
                re_found WORKTIME_RE]"

definition fired :: "ustr \<Rightarrow> nat" where
  "fired low = length (filter (\<lambda>d. d low) detectors)"

text \<open>The four detectors of TotalNews17.\<close>

definition detectors17 :: "(ustr \<Rightarrow> bool) list" where
  "detectors17 = [re_found AD_KEYWORDS17, re_found PHONE_RE, re_found PRICE_RE,
                  re_found WORKTIME_RE17]"

definition fired17 :: "ustr \<Rightarrow> nat" where
  "fired17 low = length (filter (\<lambda>d. d low) detectors17)"

section \<open>Chunking of long messages (\<^verbatim>\<open>_split_chunks\<close>)\<close>

text \<open>
  The loop of \<^verbatim>\<open>_split_chunks\<close> over the lines of the text. Its state is the list
  \<open>parts\<close> of finished chunks, the lines \<open>current\<close> of the chunk being packed and
  \<open>cur_len\<close>, the sum of \<open>len(line) + 1\<close> over \<open>current\<close>. Code point 10 is the newline.
\<close>

fun pack :: "nat \<Rightarrow> ustr list \<Rightarrow> ustr list \<Rightarrow> ustr list \<Rightarrow> nat \<Rightarrow> ustr list" where
  "pack limit [] parts current cur_len =
     (if current \<noteq> [] then parts @ [join [10] current] else parts)"
| "pack limit (line # lines) parts current cur_len =
     (let ln = length line + 1 in
      if cur_len + ln > limit \<and> current \<noteq> []
      then pack limit lines (parts @ [join [10] current]) [line] ln
      else pack limit lines parts (current @ [line]) (cur_len + ln))"

definition split_chunks :: "ustr \<Rightarrow> nat \<Rightarrow> ustr list" where
  "split_chunks text limit =
     (if length text \<le> limit then [text] else pack limit (split_on 10 text) [] [] 0)"

text \<open>
  What holds of every chunk: it fits the limit, or it is one whole line of the text
  (a line longer than the limit is emitted unsplit).
\<close>

definition chunk_ok :: "nat \<Rightarrow> ustr list \<Rightarrow> ustr \<Rightarrow> bool" where
  "chunk_ok limit lines c = (length c \<le> limit \<or> c \<in> set lines)"

section \<open>Chat identifiers (\<^verbatim>\<open>normalize_chat_id\<close>)\<close>

text \<open>A chat is given as an integer or as a string.\<close>

datatype chat = ChatInt int | ChatStr ustr

text \<open>
  \<^verbatim>\<open>urllib.parse.urlparse\<close> is a parameter of the model: it gives the network location
  and the path of a URL, or \<open>None\<close> when it raises (the exception is caught and the
  stripped string returned). The string case of \<^verbatim>\<open>normalize_chat_id\<close>:
\<close>

definition normalize_chat_str :: "(ustr \<Rightarrow> (ustr \<times> ustr) option) \<Rightarrow> ustr \<Rightarrow> ustr" where
  "normalize_chat_str urlparse chat =
     (let s = py_strip chat in
      if s = [] then s
      else if startswith s [64] then s
      else if startswith s (ascii ''http://'') \<or> startswith s (ascii ''https://'') then
        (case urlparse s of
           None \<Rightarrow> s
         | Some (netloc, upath) \<Rightarrow>
             if endswith netloc (ascii ''t.me'') \<or> endswith netloc (ascii ''telegram.me'') then
               (let path = strip_chars [47] (if upath = [] then [47] else upath) in
                if path \<noteq> [] \<and>
                   list_all (\<lambda>c. \<not> contains path c)
                     [ascii ''+'', ascii ''joinchat'', ascii ''addstickers'', ascii ''s/'']
                then
                  (let username = hd (split_on 47 path) in
                   if re_fullmatch USERNAME_RE username then 64 # username else s)
                else s)
             else s)
      else s)"

definition normalize_chat_id :: "(ustr \<Rightarrow> (ustr \<times> ustr) option) \<Rightarrow> chat \<Rightarrow> chat" where
  "normalize_chat_id urlparse chat =
     (case chat of ChatInt n \<Rightarrow> ChatInt n | ChatStr s \<Rightarrow> ChatStr (normalize_chat_str urlparse s))"

text \<open>
  What \<^verbatim>\<open>urlparse\<close> returns for a URL that starts with \<^verbatim>\<open>http://\<close> or \<^verbatim>\<open>https://\<close>
  and has no control characters: the network location runs to the first of
  \<^verbatim>\<open>/ ? #\<close>, the path from there to the first of \<^verbatim>\<open>? #\<close>, less the parameters after a
  semicolon in its last segment; a network location with one square bracket but not the
  other raises. It serves the examples; the theorems hold for every parser.
\<close>

definition cut_params :: "ustr \<Rightarrow> ustr" where
  "cut_params p =
     (let last_seg = rev (takeWhile (\<lambda>c. c \<noteq> 47) (rev p));
          before = take (length p - length last_seg) p
      in before @ takeWhile (\<lambda>c. c \<noteq> 59) last_seg)"

definition urlparse_basic :: "ustr \<Rightarrow> (ustr \<times> ustr) option" where
  "urlparse_basic s =
     (let rest = (if startswith s (ascii ''https://'') then drop 8 s else drop 7 s);
          netloc = takeWhile (\<lambda>c. c \<notin> set [47, 63, 35]) rest;
          after = dropWhile (\<lambda>c. c \<notin> set [47, 63, 35]) rest;
          upath = cut_params (takeWhile (\<lambda>c. c \<notin> set [63, 35]) after)
      in if (91 \<in> set netloc) \<noteq> (93 \<in> set netloc) then None else Some (netloc, upath))"

section \<open>Media download (\<^verbatim>\<open>download_binary\<close>, \<^verbatim>\<open>prepare_media\<close>)\<close>

definition is_image_url :: "ustr \<Rightarrow> bool" where
  "is_image_url u =
     (u \<noteq> [] \<and> startswith u (ascii ''http'') \<and> (re_found IMG_EXT_RE u \<or> re_found TELEGRAM_CDN_RE u))"

definition is_video_url :: "ustr \<Rightarrow> bool" where
  "is_video_url u =
     (u \<noteq> [] \<and> startswith u (ascii ''http'') \<and> (re_found VIDEO_EXT_RE u \<or> re_found TELEGRAM_CDN_RE u))"

text \<open>
  A response to a GET: the status, the \<^verbatim>\<open>content-type\<close> header (empty when absent)
  and the body as the stream of what \<^verbatim>\<open>iter_content\<close> yields, a chunk of bytes or an
  error of the transport. A request that raises has no response.
\<close>

datatype stream_item = Chunk "nat list" | ReadError

record response =
  status_code :: nat
  content_type :: ustr
  body :: "stream_item list"

datatype kind = Image | Video

type_synonym asset = "ustr \<times> nat list \<times> kind"

text \<open>
  The choice of extension and kind from the content type and the URL; \<open>None\<close> is the
  \<^verbatim>\<open>return None\<close> of the last \<^verbatim>\<open>else\<close>.
\<close>

definition classify_media :: "ustr \<Rightarrow> ustr \<Rightarrow> (ustr \<times> kind) option" where
  "classify_media ct url =
     (if contains ct (ascii ''image/'') then
        Some ((if contains ct (ascii ''png'') then ascii ''.png''
               else if contains ct (ascii ''webp'') then ascii ''.webp''
               else if contains ct (ascii ''gif'') then ascii ''.gif''
               else ascii ''.jpg''), Image)
      else if contains ct (ascii ''video/'') \<or> re_found VIDEO_EXT_RE url then
        Some ((if contains ct (ascii ''webm'') \<or> endswith (py_lower url) (ascii ''.webm'')
               then ascii ''.webm'' else ascii ''.mp4''), Video)
      else None)"

text \<open>
  The read loop of \<^verbatim>\<open>download_binary\<close>: \<open>tot\<close> counts the bytes read, \<open>buf\<close> is what
  has been written to the temporary file. The result is the content of the file, or
  \<open>None\<close> when the loop gave up, together with the number of items it took from the
  stream.
\<close>

fun read_body :: "nat \<Rightarrow> stream_item list \<Rightarrow> nat \<Rightarrow> nat list \<Rightarrow> nat list option \<times> nat" where
  "read_body max_bytes [] tot buf = (Some buf, 0)"
| "read_body max_bytes (ReadError # rest) tot buf = (None, 1)"
| "read_body max_bytes (Chunk c # rest) tot buf =
     (if c = [] then
        (case read_body max_bytes rest tot buf of (r, n) \<Rightarrow> (r, Suc n))
      else if tot + length c > max_bytes then (None, 1)
      else (case read_body max_bytes rest (tot + length c) (buf @ c) of (r, n) \<Rightarrow> (r, Suc n)))"

definition download_binary :: "(ustr \<Rightarrow> response option) \<Rightarrow> ustr \<Rightarrow> nat \<Rightarrow> asset option" where
  "download_binary fetch url max_bytes =
     (case fetch url of
        None \<Rightarrow> None
      | Some r \<Rightarrow>
          if status_code r \<ge> 400 then None
          else
            (case classify_media (py_lower (content_type r)) url of
               None \<Rightarrow> None
             | Some (ext, knd) \<Rightarrow>
                 (case fst (read_body max_bytes (body r) 0 []) of
                    None \<Rightarrow> None
                  | Some data \<Rightarrow> if data = [] then None else Some (ascii ''media'' @ ext, data, knd))))"

text \<open>The default ceiling, \<^verbatim>\<open>50 * 1024 * 1024\<close>.\<close>

definition MAX_BYTES :: nat where
  "MAX_BYTES = 50 * 1024 * 1024"

text \<open>The URL as \<^verbatim>\<open>prepare_media\<close> cleans it, and the candidates it downloads.\<close>

definition clean_url :: "ustr \<Rightarrow> ustr" where
  "clean_url u = replace_all (ascii ''&amp;'') (ascii ''&'') (py_strip u)"

fun prepare_media :: "(ustr \<Rightarrow> response option) \<Rightarrow> ustr list \<Rightarrow> asset option" where
  "prepare_media fetch [] = None"
| "prepare_media fetch (u0 # urls) =
     (let u = clean_url u0 in
      if \<not> (is_image_url u \<or> is_video_url u) then prepare_media fetch urls
      else (case download_binary fetch u MAX_BYTES of
              Some got \<Rightarrow> Some got
            | None \<Rightarrow> prepare_media fetch urls))"

definition candidates :: "ustr list \<Rightarrow> ustr list" where
  "candidates urls = filter (\<lambda>u. is_image_url u \<or> is_video_url u) (map clean_url urls)"

section \<open>Post extraction (\<^verbatim>\<open>_extract_posts_from_html\<close>)\<close>

text \<open>
  What the selectors find in one message of the page: the value of the \<^verbatim>\<open>time\<close>
  element (its \<^verbatim>\<open>datetime\<close> attribute, or else its text), the \<^verbatim>\<open>title\<close> of the date
  link, the text of the text block, the \<^verbatim>\<open>style\<close> of each photo link, the \<^verbatim>\<open>href\<close> and
  \<^verbatim>\<open>data-video\<close> of each video link, and the \<^verbatim>\<open>src\<close> of each \<^verbatim>\<open>video\<close> and \<^verbatim>\<open>source\<close>
  element. An element that is not there is \<open>None\<close>, an attribute that is not there the
  empty string.
\<close>

record message =
  msg_time :: "ustr option"
  msg_date_title :: "ustr option"
  msg_text :: "ustr option"
  msg_photo_styles :: "ustr list"
  msg_video_links :: "(ustr \<times> ustr) list"
  msg_media_srcs :: "ustr list"

record post =
  published :: int
  post_text :: ustr
  photo_urls :: "ustr list"
  video_urls :: "ustr list"

text \<open>\<^verbatim>\<open>extract_datetime\<close> on a string; the date parser of \<^verbatim>\<open>dateutil\<close> is the parameter
  \<open>parse\<close>, \<open>None\<close> when it raises. A time is a number of seconds in UTC.\<close>

definition extract_datetime :: "(ustr \<Rightarrow> int option) \<Rightarrow> ustr \<Rightarrow> int option" where
  "extract_datetime parse v = (if v = [] then None else parse v)"

definition message_datetime :: "(ustr \<Rightarrow> int option) \<Rightarrow> message \<Rightarrow> int option" where
  "message_datetime parse m =
     (let dt = (case msg_time m of None \<Rightarrow> None | Some v \<Rightarrow> extract_datetime parse v) in
      case dt of
        Some d \<Rightarrow> Some d
      | None \<Rightarrow> (case msg_date_title m of None \<Rightarrow> None | Some v \<Rightarrow> extract_datetime parse v))"

definition message_photos :: "message \<Rightarrow> ustr list" where
  "message_photos m =
     concat (map (\<lambda>style. case search_group BG_IMAGE_PRE BG_IMAGE_URL None style of
                            None \<Rightarrow> [] | Some g \<Rightarrow> [g])
                 (msg_photo_styles m))"

definition message_videos :: "message \<Rightarrow> ustr list" where
  "message_videos m =
     dedup_first
       (concat (map (\<lambda>(href, dv).
                  (if startswith (py_strip href) (ascii ''http'') then [py_strip href] else []) @
                  (if startswith (py_strip dv) (ascii ''http'') then [py_strip dv] else []))
                (msg_video_links m))
        @ concat (map (\<lambda>src. if startswith (py_strip src) (ascii ''http'') then [py_strip src] else [])
                   (msg_media_srcs m)))"

text \<open>The text of the text block, empty when there is none, and the test for a short
  \<^verbatim>\<open>pinned\<close> marker, which makes the loop skip the message.\<close>

definition raw_text :: "message \<Rightarrow> ustr" where
  "raw_text m = (case msg_text m of None \<Rightarrow> [] | Some t \<Rightarrow> t)"

definition pinned_marker :: "message \<Rightarrow> bool" where
  "pinned_marker m = (re_found PINNED_PAT (raw_text m) \<and> length (py_words [] (raw_text m)) \<le> 6)"

text \<open>One turn of the loop over the messages: the post that is appended, if any.\<close>

definition extract_message :: "(ustr \<Rightarrow> int option) \<Rightarrow> message \<Rightarrow> post option" where
  "extract_message parse m =
     (let dt = message_datetime parse m;
          raw_txt = raw_text m
      in if pinned_marker m then None
         else
           (let txt = sanitize raw_txt;
                photos = message_photos m;
                videos = message_videos m
            in case dt of
                 None \<Rightarrow> None
               | Some d \<Rightarrow>
                   if txt \<noteq> [] \<or> photos \<noteq> [] \<or> videos \<noteq> []
                   then Some \<lparr>published = d, post_text = txt,
                              photo_urls = dedup_first photos, video_urls = videos\<rparr>
                   else None))"

definition extract_posts :: "(ustr \<Rightarrow> int option) \<Rightarrow> message list \<Rightarrow> post list" where
  "extract_posts parse msgs =
     concat (map (\<lambda>m. case extract_message parse m of None \<Rightarrow> [] | Some p \<Rightarrow> [p]) msgs)"

section \<open>The content key (\<^verbatim>\<open>_make_dedup_key\<close>)\<close>

text \<open>
  The string that is hashed: \<^verbatim>\<open>title[:1024] + "||" + summary[:1024] + "||" + source\<close>
  (code point 124 is the bar).
\<close>

definition dedup_raw :: "ustr \<Rightarrow> ustr \<Rightarrow> ustr \<Rightarrow> ustr" where
  "dedup_raw title summary source =
     take 1024 title @ [124, 124] @ take 1024 summary @ [124, 124] @ source"

text \<open>
  \<^verbatim>\<open>hashlib.sha256(raw.encode("utf-8")).hexdigest()\<close>: the digest function of the
  library is the parameter \<open>sha256_hex\<close>.
\<close>

definition make_dedup_key :: "(ustr \<Rightarrow> 'h) \<Rightarrow> ustr \<Rightarrow> ustr \<Rightarrow> ustr \<Rightarrow> 'h" where
  "make_dedup_key sha256_hex title summary source = sha256_hex (dedup_raw title summary source)"

text \<open>
  The key of TotalNews16, computed in the dispatch loop:
  \<^verbatim>\<open>(title[:160] + " | " + source).strip()\<close>. The summary takes no part in it.
\<close>

definition dedup_key16 :: "ustr \<Rightarrow> ustr \<Rightarrow> ustr" where
  "dedup_key16 title source = py_strip (take 160 title @ [32, 124, 32] @ source)"

section \<open>The store of sent items and the run of one target (\<^verbatim>\<open>process_district\<close>)\<close>

text \<open>An item as \<^verbatim>\<open>fetch_tg_channel_posts_no_login\<close> returns it.\<close>

record item =
  it_title :: ustr
  it_summary :: ustr
  it_source :: ustr
  it_raw :: ustr
  it_published :: "int option"
  it_photo_urls :: "ustr list"
  it_video_urls :: "ustr list"

text \<open>
  The table \<^verbatim>\<open>sent(chat, key, sent_at_utc)\<close> with its primary key \<^verbatim>\<open>(chat, key)\<close>: a
  map from the pair to the time of sending.
\<close>

type_synonym 'h sent_db = "ustr \<times> 'h \<Rightarrow> int option"

definition already_sent :: "'h sent_db \<Rightarrow> ustr \<Rightarrow> 'h \<Rightarrow> bool" where
  "already_sent db chat key = (db (chat, key) \<noteq> None)"

definition mark_sent :: "'h sent_db \<Rightarrow> ustr \<Rightarrow> 'h \<Rightarrow> int \<Rightarrow> 'h sent_db" where
  "mark_sent db chat key now = db((chat, key) \<mapsto> now)"

text \<open>\<^verbatim>\<open>looks_recent\<close> with \<^verbatim>\<open>FRESH_HOURS = 48\<close>, and \<^verbatim>\<open>mentions_local\<close> (code points 1105
  and 1077 are the letters \<^verbatim>\<open>yo\<close> and \<^verbatim>\<open>e\<close>).\<close>

definition looks_recent :: "int \<Rightarrow> int option \<Rightarrow> bool" where
  "looks_recent now dt = (case dt of None \<Rightarrow> False | Some d \<Rightarrow> now - d \<le> 48 * 3600)"

definition mentions_local :: "ustr \<Rightarrow> ustr list \<Rightarrow> bool" where
  "mentions_local text toponyms =
     (let low = replace_all [1105] [1077] (py_lower text) in list_ex (\<lambda>tp. contains low tp) toponyms)"

definition full_text :: "item \<Rightarrow> ustr" where
  "full_text it = py_strip (join [32] [it_title it, it_summary it, it_raw it])"

definition keep_item :: "int \<Rightarrow> ustr list \<Rightarrow> item \<Rightarrow> bool" where
  "keep_item now toponyms it =
     (looks_recent now (it_published it) \<and>
      \<not> looks_like_ad17 (full_text it) \<and>
      (toponyms = [] \<or> mentions_local (full_text it) toponyms))"

text \<open>
  \<^verbatim>\<open>filtered.sort(key=..., reverse=True)\<close>: the sort of Python is stable, and with
  \<^verbatim>\<open>reverse=True\<close> it sorts the reversed list and reverses the result, so that items
  with equal keys keep their order. The key is the time of publication, or the epoch.
\<close>

definition sort_key_of :: "item \<Rightarrow> int" where
  "sort_key_of it = (case it_published it of None \<Rightarrow> 0 | Some d \<Rightarrow> d)"

definition sort_desc :: "item list \<Rightarrow> item list" where
  "sort_desc xs = rev (sort_key sort_key_of (rev xs))"

definition MAX_POSTS_PER_CHAT :: nat where
  "MAX_POSTS_PER_CHAT = 5"

text \<open>
  The operations on the store and the dispatches of a run, in program order: a query
  of the store with its answer, a call of \<^verbatim>\<open>send_item\<close> with its result, a write to
  the store.
\<close>

datatype 'h event = Query ustr 'h bool | Dispatch ustr item bool | Written ustr 'h

text \<open>
  The state of a run: the world outside (the network and the clock), the store, the
  log of events and the counter \<open>sent\<close>.
\<close>

record ('w, 'h) run =
  world :: 'w
  store :: "'h sent_db"
  events :: "'h event list"
  sent :: nat

text \<open>
  The key that the dispatch loop computes for an item: in TotalNews17 from the title,
  the summary and the source, by \<^verbatim>\<open>_make_dedup_key\<close>; in TotalNews16 from the title and
  the source.
\<close>

definition item_key :: "(ustr \<Rightarrow> 'h) \<Rightarrow> item \<Rightarrow> 'h" where
  "item_key sha256_hex it =
     (let title = it_title it; summary = it_summary it; source = it_source it
      in make_dedup_key sha256_hex title summary source)"

definition item_key16 :: "item \<Rightarrow> ustr" where
  "item_key16 it = dedup_key16 (it_title it) (it_source it)"

text \<open>
  The dispatch loop of \<^verbatim>\<open>process_district\<close>, which is the same in TotalNews16 and
  TotalNews17 but for the line that computes the key. The parameters are that
  computation, \<^verbatim>\<open>send_item\<close> as it acts on the world, and the clock \<^verbatim>\<open>utcnow\<close>.
\<close>

fun send_loop ::
  "(item \<Rightarrow> 'h) \<Rightarrow> ('w \<Rightarrow> ustr \<Rightarrow> item \<Rightarrow> bool \<times> 'w) \<Rightarrow> ('w \<Rightarrow> int) \<Rightarrow> ustr \<Rightarrow> item list \<Rightarrow>
   ('w, 'h) run \<Rightarrow> ('w, 'h) run" where
  "send_loop key_of send clock chat [] st = st"
| "send_loop key_of send clock chat (it # its) st =
     (let key = key_of it in
      if already_sent (store st) chat key
      then send_loop key_of send clock chat its (st\<lparr>events := events st @ [Query chat key True]\<rparr>)
      else
        (case send (world st) chat it of
           (ok, w) \<Rightarrow>
             if ok
             then send_loop key_of send clock chat its
                    (st\<lparr>world := w,
                        store := mark_sent (store st) chat key (clock w),
                        events := events st @ [Query chat key False, Dispatch chat it True,
                                               Written chat key],
                        sent := sent st + 1\<rparr>)
             else send_loop key_of send clock chat its
                    (st\<lparr>world := w,
                        events := events st @ [Query chat key False, Dispatch chat it False]\<rparr>)))"

text \<open>\<^verbatim>\<open>process_district\<close> of TotalNews17, after the fetch of the raw items.\<close>

definition process_district ::
  "(ustr \<Rightarrow> (ustr \<times> ustr) option) \<Rightarrow> (ustr \<Rightarrow> 'h) \<Rightarrow> ('w \<Rightarrow> ustr \<Rightarrow> item \<Rightarrow> bool \<times> 'w) \<Rightarrow>
   ('w \<Rightarrow> int) \<Rightarrow> ustr list \<Rightarrow> item list \<Rightarrow> ustr \<Rightarrow> ('w, 'h) run \<Rightarrow> ('w, 'h) run" where
  "process_district urlparse sha256_hex send clock toponyms raw chat_url st =
     (let chat_norm = normalize_chat_str urlparse chat_url;
          filtered = filter (keep_item (clock (world st)) toponyms) raw;
          ordered = sort_desc filtered
      in send_loop (item_key sha256_hex) send clock chat_norm (take MAX_POSTS_PER_CHAT ordered)
           (st\<lparr>sent := 0\<rparr>))"

text \<open>\<^verbatim>\<open>process_district\<close> of TotalNews16: the same but for the key.\<close>

definition process_district16 ::
  "(ustr \<Rightarrow> (ustr \<times> ustr) option) \<Rightarrow> ('w \<Rightarrow> ustr \<Rightarrow> item \<Rightarrow> bool \<times> 'w) \<Rightarrow>
   ('w \<Rightarrow> int) \<Rightarrow> ustr list \<Rightarrow> item list \<Rightarrow> ustr \<Rightarrow> ('w, ustr) run \<Rightarrow> ('w, ustr) run" where
  "process_district16 urlparse send clock toponyms raw chat_url st =
     (let chat_norm = normalize_chat_str urlparse chat_url;
          filtered = filter (keep_item (clock (world st)) toponyms) raw;
          ordered = sort_desc filtered
      in send_loop item_key16 send clock chat_norm (take MAX_POSTS_PER_CHAT ordered)
           (st\<lparr>sent := 0\<rparr>))"


definition fresh_run :: "'w \<Rightarrow> 'h sent_db \<Rightarrow> ('w, 'h) run" where
  "fresh_run w db = \<lparr>world = w, store = db, events = [], sent = 0\<rparr>"

text \<open>
  \<^verbatim>\<open>send_item\<close>: the caption, the media of the first list that yields one, the upload
  and, when there is no media or the upload fails, the plain message. The two calls of
  the messaging API are parameters.
\<close>

definition send_item ::
  "(ustr \<Rightarrow> response option) \<Rightarrow> (ustr \<Rightarrow> asset \<Rightarrow> ustr \<Rightarrow> bool) \<Rightarrow> (ustr \<Rightarrow> ustr \<Rightarrow> bool) \<Rightarrow>
   ustr \<Rightarrow> item \<Rightarrow> bool" where
  "send_item fetch tg_send_media_upload tg_send_message chat it =
     (let caption = build_caption (it_title it) (it_summary it);
          media = (case prepare_media fetch (it_video_urls it) of
                     Some a \<Rightarrow> Some a
                   | None \<Rightarrow> prepare_media fetch (it_photo_urls it))
      in case media of
           Some a \<Rightarrow> if tg_send_media_upload chat a caption then True
                     else tg_send_message chat caption
         | None \<Rightarrow> tg_send_message chat caption)"

section \<open>Notions used in the statements\<close>

text \<open>
  The logs that the dispatch loop can write: per item a query answered \<open>True\<close> and
  nothing else; or a query answered \<open>False\<close>, a successful dispatch and the write of the
  same key; or a query answered \<open>False\<close> and a failed dispatch.
\<close>

inductive log_ok :: "(item \<Rightarrow> 'h) \<Rightarrow> 'h event list \<Rightarrow> bool" for key where
  nil: "log_ok key []"
| seen: "log_ok key es \<Longrightarrow> log_ok key (Query c k True # es)"
| delivered: "log_ok key es \<Longrightarrow>
     log_ok key (Query c (key it) False # Dispatch c it True # Written c (key it) # es)"
| failed: "log_ok key es \<Longrightarrow> log_ok key (Query c (key it) False # Dispatch c it False # es)"

text \<open>The bytes of the chunks of a stream, and a stream that the transport delivers
  without error.\<close>

fun chunk_bytes :: "stream_item list \<Rightarrow> nat list" where
  "chunk_bytes [] = []"
| "chunk_bytes (Chunk c # rest) = c @ chunk_bytes rest"
| "chunk_bytes (ReadError # rest) = chunk_bytes rest"

definition no_error :: "stream_item list \<Rightarrow> bool" where
  "no_error items = (ReadError \<notin> set items)"

text \<open>A text without white space at either end, and a text of white space only.\<close>

definition stripped :: "ustr \<Rightarrow> bool" where
  "stripped x = (x = [] \<or> (\<not> is_space (hd x) \<and> \<not> is_space (last x)))"





section \<open>Values of the evaluated instances\<close>

text \<open>The example of the specification: \<^verbatim>\<open>Skidka 20%, zvonite +7 916 123 45 67\<close>, in
  Cyrillic letters.\<close>

definition spec_example :: ustr where
  "spec_example =
     [1057, 1082, 1080, 1076, 1082, 1072, 32, 50, 48, 37, 44, 32,
      1079, 1074, 1086, 1085, 1080, 1090, 1077, 32,
      43, 55, 32, 57, 49, 54, 32, 49, 50, 51, 32, 52, 53, 32, 54, 55]"

text \<open>The same text in lower case.\<close>

definition spec_example_low :: ustr where
  "spec_example_low =
     [1089, 1082, 1080, 1076, 1082, 1072, 32, 50, 48, 37, 44, 32,
      1079, 1074, 1086, 1085, 1080, 1090, 1077, 32,
      43, 55, 32, 57, 49, 54, 32, 49, 50, 51, 32, 52, 53, 32, 54, 55]"

definition example_item :: "ustr \<Rightarrow> int \<Rightarrow> item" where
  "example_item title t =
     \<lparr>it_title = title, it_summary = [], it_source = ascii ''@src'', it_raw = title,
      it_published = Some t, it_photo_urls = [], it_video_urls = []\<rparr>"

text \<open>A dispatch that succeeds for the item titled \<^verbatim>\<open>a\<close> only.\<close>

definition example_send :: "unit \<Rightarrow> ustr \<Rightarrow> item \<Rightarrow> bool \<times> unit" where
  "example_send w chat it = (it_title it = ascii ''a'', w)"

text \<open>A run over two items, at time 100, with an empty store and the identity in place
  of the digest.\<close>

definition example_run :: "(unit, ustr) run" where
  "example_run =
     process_district urlparse_basic (\<lambda>x. x) example_send (\<lambda>w. 100) []
       [example_item (ascii ''b'') 50, example_item (ascii ''a'') 100] (ascii ''@news'')
       (fresh_run () (\<lambda>k. None))"

text \<open>The same run in TotalNews16.\<close>

definition example_run16 :: "(unit, ustr) run" where
  "example_run16 =
     process_district16 urlparse_basic example_send (\<lambda>w. 100) []
       [example_item (ascii ''b'') 50, example_item (ascii ''a'') 100] (ascii ''@news'')
       (fresh_run () (\<lambda>k. None))"

text \<open>A server that answers every request with a PNG image of two bytes.\<close>

definition example_fetch :: "ustr \<Rightarrow> response option" where
  "example_fetch u =
     Some \<lparr>status_code = 200, content_type = ascii ''image/png'', body = [Chunk [1, 2]]\<rparr>"

text \<open>A message in which the selectors find nothing.\<close>

definition empty_message :: message where
  "empty_message =
     \<lparr>msg_time = None, msg_date_title = None, msg_text = None, msg_photo_styles = [],
      msg_video_links = [], msg_media_srcs = []\<rparr>"

section \<open>Evaluation of the patterns\<close>

text \<open>The definitions that the simplifier unfolds to run a pattern on a given text.\<close>

lemmas rx_eval = ascii_def lits_def litsI_def many_def many1_def exactly_def step_if_def
  at_word_boundary_def is_space_def is_digit_def is_word_def in_ranges_def lower_cp_def
  re_found_def

section \<open>Properties of splitting and joining\<close>

lemma split_on_ne: "split_on sep xs \<noteq> []"
  by (induction xs) (auto split: list.splits)

lemma join_split_on: "join [sep] (split_on sep xs) = xs"
proof (induction xs)
  case Nil
  show ?case by simp
next
  case (Cons x xs)
  obtain l ls where e: "split_on sep xs = l # ls"
    using split_on_ne[of sep xs] by (cases "split_on sep xs") auto
  show ?case using Cons e by (cases ls) auto
qed

lemma split_on_no_sep: "sep \<notin> set xs \<Longrightarrow> split_on sep xs = [xs]"
  by (induction xs) auto

lemma join_append:
  "xs \<noteq> [] \<Longrightarrow> ys \<noteq> [] \<Longrightarrow> join sep (xs @ ys) = join sep xs @ sep @ join sep ys"
proof (induction sep xs rule: join.induct)
  case (1 sep)
  then show ?case by simp
next
  case (2 sep l)
  then show ?case by (cases ys) auto
next
  case (3 sep l v va)
  then show ?case by simp
qed

lemma join_snoc_join:
  assumes "as \<noteq> []" "bs \<noteq> []"
  shows "join sep (ps @ [join sep as, join sep bs]) = join sep (ps @ [join sep (as @ bs)])"
proof (cases "ps = []")
  case True
  then show ?thesis using assms by (simp add: join_append)
next
  case False
  have "join sep (ps @ [join sep as, join sep bs])
      = join sep ps @ sep @ join sep [join sep as, join sep bs]"
    using False by (simp add: join_append)
  also have "\<dots> = join sep ps @ sep @ join sep [join sep (as @ bs)]"
    using assms by (simp add: join_append)
  also have "\<dots> = join sep (ps @ [join sep (as @ bs)])"
    using False by (simp add: join_append)
  finally show ?thesis .
qed

lemma length_join:
  "ls \<noteq> [] \<Longrightarrow>
   length (join sep ls) + length sep = sum_list (map (\<lambda>l. length l + length sep) ls)"
  by (induction sep ls rule: join.induct) auto

lemma length_join_nl:
  "ls \<noteq> [] \<Longrightarrow> length (join [c] ls) + 1 = sum_list (map (\<lambda>l. length l + 1) ls)"
  using length_join[of ls "[c]"] by simp

section \<open>The chunks of a message\<close>

text \<open>The packing loop keeps the text: joining what it returns gives back the lines.\<close>

lemma pack_join:
  "current @ lines \<noteq> [] \<Longrightarrow>
   join [10] (pack limit lines parts current cur_len)
     = join [10] (parts @ [join [10] (current @ lines)])"
proof (induction lines arbitrary: parts current cur_len)
  case Nil
  then show ?case by simp
next
  case (Cons line lines)
  show ?case
  proof (cases "cur_len + (length line + 1) > limit \<and> current \<noteq> []")
    case True
    have "join [10] (pack limit (line # lines) parts current cur_len)
        = join [10] (pack limit lines (parts @ [join [10] current]) [line] (length line + 1))"
      using True by (simp add: Let_def)
    also have "\<dots> = join [10] ((parts @ [join [10] current]) @ [join [10] ([line] @ lines)])"
      by (rule Cons.IH) simp
    also have "\<dots> = join [10] (parts @ [join [10] current, join [10] (line # lines)])"
      by simp
    also have "\<dots> = join [10] (parts @ [join [10] (current @ line # lines)])"
      using True by (intro join_snoc_join) auto
    finally show ?thesis .
  next
    case False
    have "join [10] (pack limit (line # lines) parts current cur_len)
        = join [10] (pack limit lines parts (current @ [line]) (cur_len + (length line + 1)))"
      using False by (auto simp add: Let_def)
    also have "\<dots> = join [10] (parts @ [join [10] ((current @ [line]) @ lines)])"
      by (rule Cons.IH) simp
    finally show ?thesis by simp
  qed
qed

text \<open>A chunk of one line is that line; a chunk of several lines has length \<open>cur_len - 1\<close>,
  and \<open>cur_len\<close> never passes the limit once a second line is added.\<close>

lemma flushed_chunk_ok:
  assumes "current \<noteq> []"
      and "set current \<subseteq> set L"
      and "cur_len = sum_list (map (\<lambda>l. length l + 1) current)"
      and "2 \<le> length current \<longrightarrow> cur_len \<le> limit"
  shows "chunk_ok limit L (join [10] current)"
proof (cases current)
  case Nil
  then show ?thesis using assms(1) by simp
next
  case (Cons a as)
  show ?thesis
  proof (cases as)
    case Nil
    then show ?thesis using Cons assms(2) by (simp add: chunk_ok_def)
  next
    case (Cons b bs)
    then have "2 \<le> length current" using \<open>current = a # as\<close> by simp
    then have "cur_len \<le> limit" using assms(4) by simp
    moreover have "length (join [10] current) + 1 = cur_len"
      using length_join_nl[of current 10] assms(1,3) by simp
    ultimately show ?thesis by (simp add: chunk_ok_def)
  qed
qed

lemma pack_chunks:
  assumes "\<forall>c \<in> set parts. chunk_ok limit L c"
      and "set (current @ lines) \<subseteq> set L"
      and "cur_len = sum_list (map (\<lambda>l. length l + 1) current)"
      and "2 \<le> length current \<longrightarrow> cur_len \<le> limit"
  shows "\<forall>c \<in> set (pack limit lines parts current cur_len). chunk_ok limit L c"
  using assms
proof (induction lines arbitrary: parts current cur_len)
  case Nil
  have "chunk_ok limit L (join [10] current)" if "current \<noteq> []"
    using that Nil.prems(2,3,4) by (intro flushed_chunk_ok) auto
  then show ?case using Nil.prems(1) by auto
next
  case (Cons line lines)
  let ?ln = "length line + 1"
  show ?case
  proof (cases "cur_len + ?ln > limit \<and> current \<noteq> []")
    case True
    have fl: "chunk_ok limit L (join [10] current)"
      using True Cons.prems(2,3,4) by (intro flushed_chunk_ok) auto
    have "\<forall>c \<in> set (pack limit lines (parts @ [join [10] current]) [line] ?ln).
            chunk_ok limit L c"
      using Cons.prems(1,2) fl by (intro Cons.IH) auto
    then show ?thesis using True by (simp add: Let_def)
  next
    case False
    have "\<forall>c \<in> set (pack limit lines parts (current @ [line]) (cur_len + ?ln)).
            chunk_ok limit L c"
    proof (rule Cons.IH)
      show "\<forall>c\<in>set parts. chunk_ok limit L c" by (rule Cons.prems(1))
      show "set ((current @ [line]) @ lines) \<subseteq> set L" using Cons.prems(2) by simp
      show "cur_len + ?ln = sum_list (map (\<lambda>l. length l + 1) (current @ [line]))"
        using Cons.prems(3) by simp
      show "2 \<le> length (current @ [line]) \<longrightarrow> cur_len + ?ln \<le> limit"
        using False by (cases current) auto
    qed
    then show ?thesis using False by (auto simp add: Let_def)
  qed
qed

text \<open>
  Claim C4, as the code has it: for every text and limit, joining the chunks of
  \<^verbatim>\<open>_split_chunks\<close> with the newline gives back the text exactly; and every chunk
  either is at most \<open>limit\<close> characters long or is a single whole line of the text,
  which the function never splits.
\<close>

theorem split_chunks_roundtrip_and_bound:
  "join [10] (split_chunks text limit) = text \<and>
   (\<forall>c \<in> set (split_chunks text limit). chunk_ok limit (split_on 10 text) c)"
proof (cases "length text \<le> limit")
  case True
  then show ?thesis by (simp add: split_chunks_def chunk_ok_def)
next
  case False
  have "join [10] (pack limit (split_on 10 text) [] [] 0)
      = join [10] ([] @ [join [10] ([] @ split_on 10 text)])"
    by (rule pack_join) (simp add: split_on_ne)
  moreover have "\<forall>c \<in> set (pack limit (split_on 10 text) [] [] 0).
                   chunk_ok limit (split_on 10 text) c"
    by (rule pack_chunks) auto
  ultimately show ?thesis using False by (simp add: split_chunks_def join_split_on)
qed

text \<open>The text \<^verbatim>\<open>"ab\ncd\nef"\<close> with limit 6: two chunks, \<^verbatim>\<open>"ab\ncd"\<close> and \<^verbatim>\<open>"ef"\<close>.\<close>

theorem split_chunks_roundtrip_and_bound_witness:
  "split_chunks [97, 98, 10, 99, 100, 10, 101, 102] 6 = [[97, 98, 10, 99, 100], [101, 102]] \<and>
   join [10] (split_chunks [97, 98, 10, 99, 100, 10, 101, 102] 6)
     = [97, 98, 10, 99, 100, 10, 101, 102] \<and>
   chunk_ok 6 (split_on 10 [97, 98, 10, 99, 100, 10, 101, 102]) [97, 98, 10, 99, 100] \<and>
   chunk_ok 6 (split_on 10 [97, 98, 10, 99, 100, 10, 101, 102]) [101, 102]"
proof -
  have e: "split_chunks [97, 98, 10, 99, 100, 10, 101, 102] 6
             = [[97, 98, 10, 99, 100], [101, 102]]"
    by (simp add: split_chunks_def)
  show ?thesis
    using split_chunks_roundtrip_and_bound[of "[97, 98, 10, 99, 100, 10, 101, 102]" 6]
    unfolding e by simp
qed

text \<open>A text of 4097 letters \<^verbatim>\<open>a\<close> and no newline is returned as one chunk of 4097
  characters: the limit of 4096 is exceeded.\<close>

theorem split_chunks_long_line_counterexample:
  "split_chunks (replicate 4097 97) 4096 = [replicate 4097 97] \<and>
   length (replicate 4097 (97::nat)) = 4097"
  by (simp add: split_chunks_def split_on_no_sep)

section \<open>The content key\<close>

lemma dedup_raw_title:
  "(dedup_raw t s src = dedup_raw t' s src) = (take 1024 t = take 1024 t')"
  by (simp add: dedup_raw_def)

lemma dedup_raw_summary:
  "(dedup_raw t s src = dedup_raw t s' src) = (take 1024 s = take 1024 s')"
  by (simp add: dedup_raw_def)

lemma dedup_raw_source:
  "(dedup_raw t s src = dedup_raw t s src') = (src = src')"
  by (simp add: dedup_raw_def)

lemma dropWhile_mid: "\<not> P c \<Longrightarrow> dropWhile P (xs @ c # ys) = dropWhile P xs @ c # ys"
  by (induction xs) auto

lemma dropWhile_snoc_eq:
  assumes "P s"
  shows "(dropWhile P (a @ [s]) = dropWhile P (b @ [s])) = (dropWhile P a = dropWhile P b)"
proof -
  have e: "dropWhile P (x @ [s]) = (if dropWhile P x = [] then [] else dropWhile P x @ [s])" for x
    using assms by (induction x) auto
  define u where "u = dropWhile P a"
  define v where "v = dropWhile P b"
  have "((if u = [] then [] else u @ [s]) = (if v = [] then [] else v @ [s])) = (u = v)"
    by auto
  then show ?thesis unfolding e u_def v_def .
qed

lemma dedup_key16_shape:
  "dedup_key16 t src =
     dropWhile is_space (take 160 t @ [32]) @ [124] @ rev (dropWhile is_space (rev src @ [32]))"
proof -
  have n: "\<not> is_space 124" by (simp add: is_space_def)
  have 1: "dropWhile is_space (take 160 t @ [32, 124, 32] @ src)
             = dropWhile is_space (take 160 t @ [32]) @ 124 # 32 # src"
    using n dropWhile_mid[where P = is_space and c = 124 and xs = "take 160 t @ [32]" and ys = "32 # src"]
    by simp
  have 2: "dropWhile is_space (rev (dropWhile is_space (take 160 t @ [32]) @ 124 # 32 # src))
             = dropWhile is_space (rev src @ [32]) @ 124 # rev (dropWhile is_space (take 160 t @ [32]))"
    using n dropWhile_mid[where P = is_space and c = 124 and xs = "rev src @ [32]"
        and ys = "rev (dropWhile is_space (take 160 t @ [32]))"]
    by simp
  show ?thesis unfolding dedup_key16_def py_strip_def 1 2 by simp
qed

lemma dedup_key16_title:
  "(dedup_key16 t src = dedup_key16 t' src)
     = (dropWhile is_space (take 160 t) = dropWhile is_space (take 160 t'))"
proof -
  have s: "is_space 32" by (simp add: is_space_def)
  show ?thesis unfolding dedup_key16_shape
    using s dropWhile_snoc_eq[where P = is_space and s = 32] by simp
qed

lemma dedup_key16_source:
  "(dedup_key16 t src = dedup_key16 t src')
     = (dropWhile is_space (rev src) = dropWhile is_space (rev src'))"
proof -
  have s: "is_space 32" by (simp add: is_space_def)
  show ?thesis unfolding dedup_key16_shape
    using s dropWhile_snoc_eq[where P = is_space and s = 32] by simp
qed

text \<open>
  Claim C3, as the code has it. The key of an item depends on its title, summary and
  source alone (in TotalNews16 on its title and source alone), so that equal fields give
  equal keys. In TotalNews17 the key is the digest of
  \<^verbatim>\<open>title[:1024] + "||" + summary[:1024] + "||" + source\<close>: for a digest without
  collisions, changing the title alone, or the summary alone, changes the key exactly
  when the first 1024 characters change, and changing the source alone always changes
  it; for any digest, fields that agree on those characters give the same key. In
  TotalNews16 the key is \<^verbatim>\<open>(title[:160] + " | " + source).strip()\<close>: changing the title
  alone changes the key exactly when the first 160 characters change beyond their
  leading white space, and changing the source alone exactly when it changes beyond its
  trailing white space.
\<close>

theorem dedup_key_fields:
  "(it_title a = it_title b \<and> it_summary a = it_summary b \<and> it_source a = it_source b \<longrightarrow>
      item_key H a = item_key H b) \<and>
   (it_title a = it_title b \<and> it_source a = it_source b \<longrightarrow> item_key16 a = item_key16 b) \<and>
   item_key H a = make_dedup_key H (it_title a) (it_summary a) (it_source a) \<and>
   item_key16 a = dedup_key16 (it_title a) (it_source a) \<and>
   (inj H \<longrightarrow>
      ((make_dedup_key H t s src = make_dedup_key H t' s src) = (take 1024 t = take 1024 t')) \<and>
      ((make_dedup_key H t s src = make_dedup_key H t s' src) = (take 1024 s = take 1024 s')) \<and>
      ((make_dedup_key H t s src = make_dedup_key H t s src') = (src = src'))) \<and>
   (take 1024 t = take 1024 t' \<and> take 1024 s = take 1024 s' \<longrightarrow>
      make_dedup_key H t s src = make_dedup_key H t' s' src) \<and>
   ((dedup_key16 t src = dedup_key16 t' src)
      = (dropWhile is_space (take 160 t) = dropWhile is_space (take 160 t'))) \<and>
   ((dedup_key16 t src = dedup_key16 t src')
      = (dropWhile is_space (rev src) = dropWhile is_space (rev src')))"
proof -
  have i: "inj H \<Longrightarrow> (H x = H y) = (x = y)" for x y by (auto dest: injD)
  have 1: "inj H \<longrightarrow>
      ((make_dedup_key H t s src = make_dedup_key H t' s src) = (take 1024 t = take 1024 t')) \<and>
      ((make_dedup_key H t s src = make_dedup_key H t s' src) = (take 1024 s = take 1024 s')) \<and>
      ((make_dedup_key H t s src = make_dedup_key H t s src') = (src = src'))"
    by (simp add: make_dedup_key_def i dedup_raw_title dedup_raw_summary dedup_raw_source)
  have 2: "take 1024 t = take 1024 t' \<and> take 1024 s = take 1024 s' \<longrightarrow>
      make_dedup_key H t s src = make_dedup_key H t' s' src"
    by (simp add: make_dedup_key_def dedup_raw_def)
  have 3: "item_key H a = make_dedup_key H (it_title a) (it_summary a) (it_source a)"
    "item_key16 a = dedup_key16 (it_title a) (it_source a)"
    by (simp_all add: item_key_def item_key16_def Let_def)
  have 4: "it_title a = it_title b \<and> it_summary a = it_summary b \<and> it_source a = it_source b \<longrightarrow>
      item_key H a = item_key H b"
    "it_title a = it_title b \<and> it_source a = it_source b \<longrightarrow> item_key16 a = item_key16 b"
    by (simp_all add: item_key_def item_key16_def Let_def)
  show ?thesis using 1 2 3 4 dedup_key16_title dedup_key16_source by blast
qed

text \<open>
  With the identity in place of the digest, which has no collisions: keys of items that
  differ in the time of publication only, and keys of fields that differ in one
  character.
\<close>

theorem dedup_key_fields_witness:
  "inj (\<lambda>x :: ustr. x) \<and>
   item_key (\<lambda>x. x) (example_item [97] 1) = item_key (\<lambda>x. x) (example_item [97] 2) \<and>
   item_key16 (example_item [97] 1) = item_key16 (example_item [97] 2) \<and>
   make_dedup_key (\<lambda>x. x) [97] [] [] \<noteq> make_dedup_key (\<lambda>x. x) [98] [] [] \<and>
   make_dedup_key (\<lambda>x. x) [] [97] [] \<noteq> make_dedup_key (\<lambda>x. x) [] [98] [] \<and>
   make_dedup_key (\<lambda>x. x) [] [] [97] \<noteq> make_dedup_key (\<lambda>x. x) [] [] [98] \<and>
   make_dedup_key (\<lambda>x. x) (replicate 1024 97 @ [98]) [98] []
     = make_dedup_key (\<lambda>x. x) (replicate 1024 97 @ [99]) [98] [] \<and>
   dedup_key16 [97] [] \<noteq> dedup_key16 [98] [] \<and>
   dedup_key16 [] [97] \<noteq> dedup_key16 [] [98]"
  using dedup_key_fields [of "example_item [97] 1" "example_item [97] 2" "\<lambda>x. x" "[97]" "[]" "[]"
      "[98]" "[]" "[]"]
    dedup_key_fields [of "example_item [97] 1" "example_item [97] 2" "\<lambda>x. x" "[]" "[]" "[97]"
      "[]" "[98]" "[98]"]
    dedup_key_fields [of "example_item [97] 1" "example_item [97] 2" "\<lambda>x. x"
      "replicate 1024 97 @ [98]" "[98]" "[]" "replicate 1024 97 @ [99]" "[98]" "[]"]
  by (simp add: example_item_def is_space_def item_key_def item_key16_def make_dedup_key_def
      dedup_raw_def dedup_key16_def py_strip_def Let_def)

text \<open>
  Fields that differ and keys that do not. In TotalNews17 two titles of 1025 characters
  that differ in the last one have the same key, whatever the digest. In TotalNews16 an
  item and the same item with another summary have the same key, and so have the titles
  \<^verbatim>\<open>" a"\<close> and \<^verbatim>\<open>"a"\<close>.
\<close>

theorem dedup_key_counterexample:
  "replicate 1024 97 @ [98] \<noteq> replicate 1024 (97::nat) @ [99] \<and>
   (\<forall>H :: ustr \<Rightarrow> ustr.
      make_dedup_key H (replicate 1024 97 @ [98]) [] []
        = make_dedup_key H (replicate 1024 97 @ [99]) [] []) \<and>
   it_summary (example_item [97] 1) \<noteq> it_summary ((example_item [97] 1)\<lparr>it_summary := [98]\<rparr>) \<and>
   item_key16 (example_item [97] 1) = item_key16 ((example_item [97] 1)\<lparr>it_summary := [98]\<rparr>) \<and>
   [32, 97] \<noteq> [97::nat] \<and> dedup_key16 [32, 97] [98] = dedup_key16 [97] [98] \<and>
   dedup_key16 [32, 97] [98] = [97, 32, 124, 32, 98]"
  by (simp add: make_dedup_key_def dedup_raw_def item_key16_def dedup_key16_def py_strip_def
      is_space_def example_item_def)

section \<open>The run of one target: order, cap and the store of sent items\<close>


lemma send_loop_seen:
  "already_sent (store st) chat (key_of it) \<Longrightarrow>
   send_loop key_of send clock chat (it # its) st
     = send_loop key_of send clock chat its
         (st\<lparr>events := events st @
            [Query chat (key_of it) True]\<rparr>)"
  by (simp add: Let_def)

lemma send_loop_ok:
  "\<not> already_sent (store st) chat (key_of it) \<Longrightarrow>
   send (world st) chat it = (True, w) \<Longrightarrow>
   send_loop key_of send clock chat (it # its) st
     = send_loop key_of send clock chat its
         (st\<lparr>world := w,
             store := mark_sent (store st) chat
                        (key_of it) (clock w),
             events := events st @
               [Query chat (key_of it) False,
                Dispatch chat it True,
                Written chat (key_of it)],
             sent := sent st + 1\<rparr>)"
  by (simp add: Let_def)

lemma send_loop_failed:
  "\<not> already_sent (store st) chat (key_of it) \<Longrightarrow>
   send (world st) chat it = (False, w) \<Longrightarrow>
   send_loop key_of send clock chat (it # its) st
     = send_loop key_of send clock chat its
         (st\<lparr>world := w,
             events := events st @
               [Query chat (key_of it) False,
                Dispatch chat it False]\<rparr>)"
  by (simp add: Let_def)






lemma log_ok_append: "log_ok key xs \<Longrightarrow> log_ok key ys \<Longrightarrow> log_ok key (xs @ ys)"
  by (induction rule: log_ok.induct) (auto intro: log_ok.intros)

lemma log_ok_dispatch_after_query:
  "log_ok key es \<Longrightarrow> es = pre @ Dispatch c it ok # post \<Longrightarrow>
   \<exists>pre'. pre = pre' @ [Query c (key it) False]"
proof (induction arbitrary: pre rule: log_ok.induct)
  case nil
  then show ?case by simp
next
  case (seen es c' k)
  then obtain p where "pre = Query c' k True # p" "es = p @ Dispatch c it ok # post"
    by (cases pre) auto
  then show ?case using seen.IH[of p] by auto
next
  case (delivered es c' it')
  show ?case
  proof (cases pre)
    case Nil
    then show ?thesis using delivered.prems by simp
  next
    case (Cons a p1)
    show ?thesis
    proof (cases p1)
      case Nil
      then show ?thesis using delivered.prems Cons by auto
    next
      case (Cons b p2)
      show ?thesis
      proof (cases p2)
        case Nil
        then show ?thesis using delivered.prems \<open>pre = a # p1\<close> \<open>p1 = b # p2\<close> by auto
      next
        case (Cons d p3)
        then have "es = p3 @ Dispatch c it ok # post"
          using delivered.prems \<open>pre = a # p1\<close> \<open>p1 = b # p2\<close> by auto
        then obtain q where "p3 = q @ [Query c (key it) False]" using delivered.IH by blast
        then show ?thesis using \<open>pre = a # p1\<close> \<open>p1 = b # p2\<close> Cons by auto
      qed
    qed
  qed
next
  case (failed es c' it')
  show ?case
  proof (cases pre)
    case Nil
    then show ?thesis using failed.prems by simp
  next
    case (Cons a p1)
    show ?thesis
    proof (cases p1)
      case Nil
      then show ?thesis using failed.prems Cons by auto
    next
      case (Cons b p2)
      then have "es = p2 @ Dispatch c it ok # post"
        using failed.prems \<open>pre = a # p1\<close> by auto
      then obtain q where "p2 = q @ [Query c (key it) False]" using failed.IH by blast
      then show ?thesis using \<open>pre = a # p1\<close> Cons by auto
    qed
  qed
qed

lemma log_ok_written_after_success:
  "log_ok key es \<Longrightarrow> es = pre @ Written c k # post \<Longrightarrow>
   \<exists>pre' it. pre = pre' @ [Dispatch c it True] \<and> k = key it"
proof (induction arbitrary: pre rule: log_ok.induct)
  case nil
  then show ?case by simp
next
  case (seen es c' k')
  then obtain p where "pre = Query c' k' True # p" "es = p @ Written c k # post"
    by (cases pre) auto
  then show ?case using seen.IH[of p] by auto
next
  case (delivered es c' it')
  show ?case
  proof (cases pre)
    case Nil
    then show ?thesis using delivered.prems by simp
  next
    case (Cons a p1)
    show ?thesis
    proof (cases p1)
      case Nil
      then show ?thesis using delivered.prems Cons by auto
    next
      case (Cons b p2)
      show ?thesis
      proof (cases p2)
        case Nil
        then show ?thesis using delivered.prems \<open>pre = a # p1\<close> \<open>p1 = b # p2\<close> by auto
      next
        case (Cons d p3)
        then have "es = p3 @ Written c k # post"
          using delivered.prems \<open>pre = a # p1\<close> \<open>p1 = b # p2\<close> by auto
        then obtain q it0 where "p3 = q @ [Dispatch c it0 True]" "k = key it0"
          using delivered.IH by blast
        then show ?thesis using \<open>pre = a # p1\<close> \<open>p1 = b # p2\<close> Cons by auto
      qed
    qed
  qed
next
  case (failed es c' it')
  show ?case
  proof (cases pre)
    case Nil
    then show ?thesis using failed.prems by simp
  next
    case (Cons a p1)
    show ?thesis
    proof (cases p1)
      case Nil
      then show ?thesis using failed.prems Cons by auto
    next
      case (Cons b p2)
      then have "es = p2 @ Written c k # post"
        using failed.prems \<open>pre = a # p1\<close> by auto
      then obtain q it0 where "p2 = q @ [Dispatch c it0 True]" "k = key it0"
        using failed.IH by blast
      then show ?thesis using \<open>pre = a # p1\<close> Cons by auto
    qed
  qed
qed

lemma log_ok_after_dispatch:
  "log_ok key es \<Longrightarrow> es = pre @ Dispatch c it ok # post \<Longrightarrow>
   (if ok then \<exists>post'. post = Written c (key it) # post'
    else post = [] \<or> (\<exists>c' k b post'. post = Query c' k b # post'))"
proof (induction arbitrary: pre rule: log_ok.induct)
  case nil
  then show ?case by simp
next
  case (seen es c' k')
  then obtain p where "pre = Query c' k' True # p" "es = p @ Dispatch c it ok # post"
    by (cases pre) auto
  then show ?case using seen.IH[of p] by auto
next
  case (delivered es c' it')
  show ?case
  proof (cases pre)
    case Nil
    then show ?thesis using delivered.prems by simp
  next
    case (Cons a p1)
    show ?thesis
    proof (cases p1)
      case Nil
      then show ?thesis using delivered.prems Cons by auto
    next
      case (Cons b p2)
      show ?thesis
      proof (cases p2)
        case Nil
        then show ?thesis using delivered.prems \<open>pre = a # p1\<close> \<open>p1 = b # p2\<close> by auto
      next
        case (Cons d p3)
        then have "es = p3 @ Dispatch c it ok # post"
          using delivered.prems \<open>pre = a # p1\<close> \<open>p1 = b # p2\<close> by auto
        then show ?thesis using delivered.IH by blast
      qed
    qed
  qed
next
  case (failed es c' it')
  show ?case
  proof (cases pre)
    case Nil
    then show ?thesis using failed.prems by simp
  next
    case (Cons a p1)
    show ?thesis
    proof (cases p1)
      case Nil
      have "log_ok key es" by fact
      then have "es = [] \<or> (\<exists>c' k b post'. es = Query c' k b # post')"
        by (cases rule: log_ok.cases) auto
      then show ?thesis using failed.prems Cons Nil by auto
    next
      case (Cons b p2)
      then have "es = p2 @ Dispatch c it ok # post"
        using failed.prems \<open>pre = a # p1\<close> by auto
      then show ?thesis using failed.IH by blast
    qed
  qed
qed

lemma send_loop_log:
  "\<exists>new. events (send_loop key_of send clock chat its st) = events st @ new \<and>
         log_ok key_of new \<and>
         (\<forall>c k. already_sent (store (send_loop key_of send clock chat its st)) c k \<longrightarrow>
                already_sent (store st) c k \<or>
                (\<exists>it. Dispatch c it True \<in> set new \<and> k = key_of it)) \<and>
         (\<forall>c k. already_sent (store st) c k \<longrightarrow>
                already_sent (store (send_loop key_of send clock chat its st)) c k) \<and>
         (\<forall>c it. Dispatch c it True \<in> set new \<longrightarrow>
                already_sent (store (send_loop key_of send clock chat its st)) c (key_of it))"
proof (induction its arbitrary: st)
  case Nil
  show ?case by (auto intro: log_ok.nil)
next
  case (Cons it its)
  let ?key = "key_of it"
  show ?case
  proof (cases "already_sent (store st) chat ?key")
    case True
    let ?st = "st\<lparr>events := events st @ [Query chat ?key True]\<rparr>"
    have e: "send_loop key_of send clock chat (it # its) st = send_loop key_of send clock chat its ?st"
      using True send_loop_seen
          [where key_of = key_of and st = st and chat = chat and it = it and send = send and clock = clock and its = its]
          by simp
    obtain new where n: "events (send_loop key_of send clock chat its ?st) = events ?st @ new"
      "log_ok key_of new"
      "\<forall>c k. already_sent (store (send_loop key_of send clock chat its ?st)) c k \<longrightarrow>
                already_sent (store ?st) c k \<or>
                (\<exists>it. Dispatch c it True \<in> set new \<and> k = key_of it)"
      "\<forall>c k. already_sent (store ?st) c k \<longrightarrow>
                already_sent (store (send_loop key_of send clock chat its ?st)) c k"
      "\<forall>c it. Dispatch c it True \<in> set new \<longrightarrow>
                already_sent (store (send_loop key_of send clock chat its ?st)) c (key_of it)"
      using Cons.IH[of ?st] by blast
    show ?thesis
    proof (intro exI[of _ "Query chat ?key True # new"] conjI)
      show "events (send_loop key_of send clock chat (it # its) st)
              = events st @ Query chat ?key True # new"
        unfolding e using n(1) by simp
      show "log_ok key_of (Query chat ?key True # new)"
        using n(2) by (rule log_ok.seen)
      show "\<forall>c k. already_sent (store (send_loop key_of send clock chat (it # its) st)) c k \<longrightarrow>
                already_sent (store st) c k \<or>
                (\<exists>it. Dispatch c it True \<in> set (Query chat ?key True # new) \<and> k = key_of it)"
        unfolding e using n(3) by auto
      show "\<forall>c k. already_sent (store st) c k \<longrightarrow>
                already_sent (store (send_loop key_of send clock chat (it # its) st)) c k"
        unfolding e using n(4) by auto
      show "\<forall>c it'. Dispatch c it' True \<in> set (Query chat ?key True # new) \<longrightarrow>
                already_sent (store (send_loop key_of send clock chat (it # its) st)) c (key_of it')"
        unfolding e using n(5) by auto
    qed
  next
    case False
    obtain ok w where sw: "send (world st) chat it = (ok, w)" by (cases "send (world st) chat it")
    show ?thesis
    proof (cases ok)
      case True
      let ?st = "st\<lparr>world := w, store := mark_sent (store st) chat ?key (clock w),
                     events := events st @ [Query chat ?key False, Dispatch chat it True,
                                            Written chat ?key],
                     sent := sent st + 1\<rparr>"
      have e: "send_loop key_of send clock chat (it # its) st = send_loop key_of send clock chat its ?st"
        using False send_loop_ok
            [where key_of = key_of and st = st and chat = chat and it = it and send = send and clock = clock and its = its and w = w]
            sw True by simp
      obtain new where n: "events (send_loop key_of send clock chat its ?st) = events ?st @ new"
        "log_ok key_of new"
        "\<forall>c k. already_sent (store (send_loop key_of send clock chat its ?st)) c k \<longrightarrow>
                already_sent (store ?st) c k \<or>
                (\<exists>it. Dispatch c it True \<in> set new \<and> k = key_of it)"
        "\<forall>c k. already_sent (store ?st) c k \<longrightarrow>
                already_sent (store (send_loop key_of send clock chat its ?st)) c k"
        "\<forall>c it. Dispatch c it True \<in> set new \<longrightarrow>
                already_sent (store (send_loop key_of send clock chat its ?st)) c (key_of it)"
        using Cons.IH[of ?st] by blast
      let ?new = "Query chat ?key False # Dispatch chat it True # Written chat ?key # new"
      have ms: "already_sent (store ?st) c k' = (already_sent (store st) c k' \<or> (c = chat \<and> k' = ?key))"
        for c k' by (auto simp: already_sent_def mark_sent_def)
      show ?thesis
      proof (intro exI[of _ ?new] conjI)
        show "events (send_loop key_of send clock chat (it # its) st) = events st @ ?new"
          unfolding e using n(1) by simp
        show "log_ok key_of ?new"
          using log_ok.delivered[OF n(2), of chat it] by simp
        show "\<forall>c k. already_sent (store (send_loop key_of send clock chat (it # its) st)) c k \<longrightarrow>
                already_sent (store st) c k \<or>
                (\<exists>it. Dispatch c it True \<in> set ?new \<and> k = key_of it)"
          unfolding e using n(3) ms by (metis list.set_intros(1) list.set_intros(2))
        show "\<forall>c k. already_sent (store st) c k \<longrightarrow>
                already_sent (store (send_loop key_of send clock chat (it # its) st)) c k"
          unfolding e using n(4) ms by blast
        show "\<forall>c it'. Dispatch c it' True \<in> set ?new \<longrightarrow>
                already_sent (store (send_loop key_of send clock chat (it # its) st)) c (key_of it')"
          unfolding e using n(4,5) ms by auto
      qed
    next
      case no: False
      let ?st = "st\<lparr>world := w,
                     events := events st @ [Query chat ?key False, Dispatch chat it False]\<rparr>"
      have e: "send_loop key_of send clock chat (it # its) st = send_loop key_of send clock chat its ?st"
        using False send_loop_failed
            [where key_of = key_of and st = st and chat = chat and it = it and send = send and clock = clock and its = its and w = w]
            sw no by simp
      obtain new where n: "events (send_loop key_of send clock chat its ?st) = events ?st @ new"
        "log_ok key_of new"
        "\<forall>c k. already_sent (store (send_loop key_of send clock chat its ?st)) c k \<longrightarrow>
                already_sent (store ?st) c k \<or>
                (\<exists>it. Dispatch c it True \<in> set new \<and> k = key_of it)"
        "\<forall>c k. already_sent (store ?st) c k \<longrightarrow>
                already_sent (store (send_loop key_of send clock chat its ?st)) c k"
        "\<forall>c it. Dispatch c it True \<in> set new \<longrightarrow>
                already_sent (store (send_loop key_of send clock chat its ?st)) c (key_of it)"
        using Cons.IH[of ?st] by blast
      let ?new = "Query chat ?key False # Dispatch chat it False # new"
      show ?thesis
      proof (intro exI[of _ ?new] conjI)
        show "events (send_loop key_of send clock chat (it # its) st) = events st @ ?new"
          unfolding e using n(1) by simp
        show "log_ok key_of ?new"
          using log_ok.failed[OF n(2), of chat it] by simp
        show "\<forall>c k. already_sent (store (send_loop key_of send clock chat (it # its) st)) c k \<longrightarrow>
                already_sent (store st) c k \<or>
                (\<exists>it. Dispatch c it True \<in> set ?new \<and> k = key_of it)"
          unfolding e using n(3) by auto
        show "\<forall>c k. already_sent (store st) c k \<longrightarrow>
                already_sent (store (send_loop key_of send clock chat (it # its) st)) c k"
          unfolding e using n(4) by auto
        show "\<forall>c it'. Dispatch c it' True \<in> set ?new \<longrightarrow>
                already_sent (store (send_loop key_of send clock chat (it # its) st)) c (key_of it')"
          unfolding e using n(5) by auto
      qed
    qed
  qed
qed

text \<open>
  Claim C2. Let \<open>r\<close> be a run of \<^verbatim>\<open>process_district\<close> on the store \<open>db\<close>, either of
  TotalNews17, where the key of an item is that of \<^verbatim>\<open>_make_dedup_key\<close>, or of TotalNews16,
  where it is made of the title and the source. Then, in the log of the run:
  every dispatch is immediately preceded by a query of the store for the chat and the
  key of the item, answered \<open>False\<close>; a successful dispatch is immediately followed by the
  write of that pair, and the pair is in the store at the end; every write immediately
  follows a successful dispatch of an item with that key; a failed dispatch is followed
  by no write, the log ending there or going on with the query for the next item; and a
  pair is in the store at the end only if it was in \<open>db\<close> or an item with that key was
  dispatched with success, so that an item whose dispatch failed is not recorded by the
  run.
\<close>

theorem process_district_check_send_record:
  assumes "(r = process_district urlparse H send clock toponyms raw chat_url (fresh_run w db) \<and>
              key_of = item_key H) \<or>
           (r = process_district16 urlparse send clock toponyms raw chat_url (fresh_run w db) \<and>
              key_of = item_key16)"
  shows
    "(\<forall>pre c it ok post. events r = pre @ Dispatch c it ok # post \<longrightarrow>
        (\<exists>pre'. pre = pre' @ [Query c (key_of it) False])) \<and>
     (\<forall>pre c it post. events r = pre @ Dispatch c it True # post \<longrightarrow>
        (\<exists>post'. post = Written c (key_of it) # post') \<and>
        already_sent (store r) c (key_of it)) \<and>
     (\<forall>pre c k post. events r = pre @ Written c k # post \<longrightarrow>
        (\<exists>pre' it. pre = pre' @ [Dispatch c it True] \<and> k = key_of it)) \<and>
     (\<forall>pre c it post. events r = pre @ Dispatch c it False # post \<longrightarrow>
        post = [] \<or> (\<exists>c' k b post'. post = Query c' k b # post')) \<and>
     (\<forall>c k. already_sent (store r) c k \<longrightarrow>
        already_sent db c k \<or> (\<exists>it. Dispatch c it True \<in> set (events r) \<and> k = key_of it))"
proof -
  let ?chat = "normalize_chat_str urlparse chat_url"
  let ?its = "take MAX_POSTS_PER_CHAT
                (sort_desc (filter (keep_item (clock (world (fresh_run w db))) toponyms) raw))"
  let ?st = "(fresh_run w db)\<lparr>sent := 0\<rparr>"
  have r: "r = send_loop key_of send clock ?chat ?its ?st"
    using assms by (auto simp add: process_district_def process_district16_def Let_def)
  obtain new where n: "events r = events ?st @ new" "log_ok key_of new"
    "\<forall>c k. already_sent (store r) c k \<longrightarrow> already_sent (store ?st) c k \<or>
        (\<exists>it. Dispatch c it True \<in> set new \<and> k = key_of it)"
    "\<forall>c it. Dispatch c it True \<in> set new \<longrightarrow> already_sent (store r) c (key_of it)"
    using send_loop_log[of key_of send clock ?chat ?its ?st] unfolding r by blast
  have ev: "events r = new" using n(1) by (simp add: fresh_run_def)
  have ok: "log_ok key_of (events r)" using n(2) ev by simp
  have a: "\<forall>pre c it ok post. events r = pre @ Dispatch c it ok # post \<longrightarrow>
        (\<exists>pre'. pre = pre' @ [Query c (key_of it) False])"
    using log_ok_dispatch_after_query[OF ok] by blast
  have b: "\<forall>pre c it post. events r = pre @ Dispatch c it True # post \<longrightarrow>
        (\<exists>post'. post = Written c (key_of it) # post') \<and>
        already_sent (store r) c (key_of it)"
  proof (intro allI impI)
    fix pre c it post assume e: "events r = pre @ Dispatch c it True # post"
    from log_ok_after_dispatch[OF ok e] have "\<exists>post'. post = Written c (key_of it) # post'"
      by simp
    moreover have "Dispatch c it True \<in> set new" using e ev by auto
    ultimately show "(\<exists>post'. post = Written c (key_of it) # post') \<and>
        already_sent (store r) c (key_of it)" using n(4) by blast
  qed
  have c: "\<forall>pre c k post. events r = pre @ Written c k # post \<longrightarrow>
        (\<exists>pre' it. pre = pre' @ [Dispatch c it True] \<and> k = key_of it)"
    using log_ok_written_after_success[OF ok] by blast
  have d: "\<forall>pre c it post. events r = pre @ Dispatch c it False # post \<longrightarrow>
        post = [] \<or> (\<exists>c' k b post'. post = Query c' k b # post')"
  proof (intro allI impI)
    fix pre c it post assume e: "events r = pre @ Dispatch c it False # post"
    from log_ok_after_dispatch[OF ok e]
    show "post = [] \<or> (\<exists>c' k b post'. post = Query c' k b # post')" by simp
  qed
  have e: "\<forall>c k. already_sent (store r) c k \<longrightarrow>
        already_sent db c k \<or> (\<exists>it. Dispatch c it True \<in> set (events r) \<and> k = key_of it)"
    using n(3) ev by (simp add: fresh_run_def)
  show ?thesis using a b c d e by blast
qed

lemma example_not_ad_a: "\<not> looks_like_ad17 (ascii ''a  a'')"
proof -
  have l: "py_lower (ascii ''a  a'') = ascii ''a  a''" by (simp add: py_lower_def lower_cp_def ascii_def)
  have 1: "\<not> re_found AD_KEYWORDS17 (ascii ''a  a'')"
    by (simp add: AD_KEYWORDS17_def AD_WORDS_def AD_WORDS17_def rx_eval)
  have 2: "\<not> re_found PHONE_RE (ascii ''a  a'')" by (simp add: PHONE_RE_def rx_eval)
  have 3: "\<not> re_found PRICE_RE (ascii ''a  a'')" by (simp add: PRICE_RE_def rx_eval)
  have 4: "\<not> re_found WORKTIME_RE17 (ascii ''a  a'')" by (simp add: WORKTIME_RE17_def rx_eval)
  show ?thesis unfolding looks_like_ad17_def Let_def l using 1 2 3 4 by simp
qed

lemma example_not_ad_b: "\<not> looks_like_ad17 (ascii ''b  b'')"
proof -
  have l: "py_lower (ascii ''b  b'') = ascii ''b  b''" by (simp add: py_lower_def lower_cp_def ascii_def)
  have 1: "\<not> re_found AD_KEYWORDS17 (ascii ''b  b'')"
    by (simp add: AD_KEYWORDS17_def AD_WORDS_def AD_WORDS17_def rx_eval)
  have 2: "\<not> re_found PHONE_RE (ascii ''b  b'')" by (simp add: PHONE_RE_def rx_eval)
  have 3: "\<not> re_found PRICE_RE (ascii ''b  b'')" by (simp add: PRICE_RE_def rx_eval)
  have 4: "\<not> re_found WORKTIME_RE17 (ascii ''b  b'')" by (simp add: WORKTIME_RE17_def rx_eval)
  show ?thesis unfolding looks_like_ad17_def Let_def l using 1 2 3 4 by simp
qed

lemma example_keep:
  "keep_item 100 [] (example_item (ascii ''a'') 100)"
  "keep_item 100 [] (example_item (ascii ''b'') 50)"
proof -
  have "full_text (example_item (ascii ''a'') 100) = ascii ''a  a''"
    by (simp add: full_text_def example_item_def py_strip_def is_space_def ascii_def)
  then show "keep_item 100 [] (example_item (ascii ''a'') 100)"
    using example_not_ad_a by (simp add: keep_item_def looks_recent_def example_item_def)
  have "full_text (example_item (ascii ''b'') 50) = ascii ''b  b''"
    by (simp add: full_text_def example_item_def py_strip_def is_space_def ascii_def)
  then show "keep_item 100 [] (example_item (ascii ''b'') 50)"
    using example_not_ad_b by (simp add: keep_item_def looks_recent_def example_item_def)
qed

lemma example_chat: "normalize_chat_str urlparse_basic (ascii ''@news'') = ascii ''@news''"
  by (simp add: normalize_chat_str_def py_strip_def is_space_def startswith_def ascii_def)

lemma example_sorted:
  "sort_desc [example_item (ascii ''b'') 50, example_item (ascii ''a'') 100]
     = [example_item (ascii ''a'') 100, example_item (ascii ''b'') 50]"
  by (simp add: sort_desc_def sort_key_of_def example_item_def)

lemma example_filtered:
  "take MAX_POSTS_PER_CHAT (sort_desc (filter (keep_item 100 [])
       [example_item (ascii ''b'') 50, example_item (ascii ''a'') 100]))
     = [example_item (ascii ''a'') 100, example_item (ascii ''b'') 50]"
proof -
  have "filter (keep_item 100 []) [example_item (ascii ''b'') 50, example_item (ascii ''a'') 100]
          = [example_item (ascii ''b'') 50, example_item (ascii ''a'') 100]"
    using example_keep by simp
  then show ?thesis by (simp add: example_sorted MAX_POSTS_PER_CHAT_def)
qed

lemma example_keys:
  "item_key (\<lambda>x. x) (example_item (ascii ''a'') 100) = ascii ''a||||@src''"
  "item_key (\<lambda>x. x) (example_item (ascii ''b'') 50) = ascii ''b||||@src''"
  "item_key16 (example_item (ascii ''a'') 100) = ascii ''a | @src''"
  "item_key16 (example_item (ascii ''b'') 50) = ascii ''b | @src''"
  by (simp_all add: item_key_def make_dedup_key_def dedup_raw_def item_key16_def dedup_key16_def
      py_strip_def is_space_def example_item_def ascii_def Let_def)

lemma example_loop:
  assumes "key_of (example_item (ascii ''a'') 100) \<noteq> key_of (example_item (ascii ''b'') 50)"
  shows "events (send_loop key_of example_send (\<lambda>w. 100) (ascii ''@news'')
        [example_item (ascii ''a'') 100, example_item (ascii ''b'') 50]
        ((fresh_run () (\<lambda>k. None))\<lparr>sent := 0\<rparr>)) =
     [Query (ascii ''@news'') (key_of (example_item (ascii ''a'') 100)) False,
      Dispatch (ascii ''@news'') (example_item (ascii ''a'') 100) True,
      Written (ascii ''@news'') (key_of (example_item (ascii ''a'') 100)),
      Query (ascii ''@news'') (key_of (example_item (ascii ''b'') 50)) False,
      Dispatch (ascii ''@news'') (example_item (ascii ''b'') 50) False]"
proof -
  have s: "example_send () (ascii ''@news'') (example_item (ascii ''a'') 100) = (True, ())"
    "example_send () (ascii ''@news'') (example_item (ascii ''b'') 50) = (False, ())"
    by (simp_all add: example_send_def example_item_def ascii_def)
  show ?thesis using assms
    by (simp add: Let_def already_sent_def mark_sent_def fresh_run_def s)
qed

lemma example_events:
  "events example_run =
     [Query (ascii ''@news'') (ascii ''a||||@src'') False,
      Dispatch (ascii ''@news'') (example_item (ascii ''a'') 100) True,
      Written (ascii ''@news'') (ascii ''a||||@src''),
      Query (ascii ''@news'') (ascii ''b||||@src'') False,
      Dispatch (ascii ''@news'') (example_item (ascii ''b'') 50) False]"
proof -
  have n: "item_key (\<lambda>x. x) (example_item (ascii ''a'') 100)
             \<noteq> item_key (\<lambda>x. x) (example_item (ascii ''b'') 50)"
    unfolding example_keys by (simp add: ascii_def)
  have e: "example_run =
      send_loop (item_key (\<lambda>x. x)) example_send (\<lambda>w. 100) (ascii ''@news'')
        [example_item (ascii ''a'') 100, example_item (ascii ''b'') 50]
        ((fresh_run () (\<lambda>k. None))\<lparr>sent := 0\<rparr>)"
    unfolding example_run_def process_district_def Let_def example_chat
    by (simp only: fresh_run_def run.simps example_filtered)
  show ?thesis unfolding e example_loop[OF n] example_keys ..
qed

lemma example_events16:
  "events example_run16 =
     [Query (ascii ''@news'') (ascii ''a | @src'') False,
      Dispatch (ascii ''@news'') (example_item (ascii ''a'') 100) True,
      Written (ascii ''@news'') (ascii ''a | @src''),
      Query (ascii ''@news'') (ascii ''b | @src'') False,
      Dispatch (ascii ''@news'') (example_item (ascii ''b'') 50) False]"
proof -
  have n: "item_key16 (example_item (ascii ''a'') 100) \<noteq> item_key16 (example_item (ascii ''b'') 50)"
    unfolding example_keys by (simp add: ascii_def)
  have e: "example_run16 =
      send_loop item_key16 example_send (\<lambda>w. 100) (ascii ''@news'')
        [example_item (ascii ''a'') 100, example_item (ascii ''b'') 50]
        ((fresh_run () (\<lambda>k. None))\<lparr>sent := 0\<rparr>)"
    unfolding example_run16_def process_district16_def Let_def example_chat
    by (simp only: fresh_run_def run.simps example_filtered)
  show ?thesis unfolding e example_loop[OF n] example_keys ..
qed

text \<open>
  A run over two items with an empty store, in both versions: the dispatch of the newer
  item succeeds and is recorded, the dispatch of the older one fails and is not.
\<close>

theorem process_district_check_send_record_witness:
  "events example_run =
     [Query (ascii ''@news'') (ascii ''a||||@src'') False,
      Dispatch (ascii ''@news'') (example_item (ascii ''a'') 100) True,
      Written (ascii ''@news'') (ascii ''a||||@src''),
      Query (ascii ''@news'') (ascii ''b||||@src'') False,
      Dispatch (ascii ''@news'') (example_item (ascii ''b'') 50) False] \<and>
   already_sent (store example_run) (ascii ''@news'') (ascii ''a||||@src'') \<and>
   \<not> already_sent (store example_run) (ascii ''@news'') (ascii ''b||||@src'') \<and>
   events example_run16 =
     [Query (ascii ''@news'') (ascii ''a | @src'') False,
      Dispatch (ascii ''@news'') (example_item (ascii ''a'') 100) True,
      Written (ascii ''@news'') (ascii ''a | @src''),
      Query (ascii ''@news'') (ascii ''b | @src'') False,
      Dispatch (ascii ''@news'') (example_item (ascii ''b'') 50) False] \<and>
   already_sent (store example_run16) (ascii ''@news'') (ascii ''a | @src'') \<and>
   \<not> already_sent (store example_run16) (ascii ''@news'') (ascii ''b | @src'')"
proof -
  let ?c = "ascii ''@news''"
  let ?a = "example_item (ascii ''a'') 100" and ?b = "example_item (ascii ''b'') 50"
  have p: "(example_run = process_district urlparse_basic (\<lambda>x. x) example_send (\<lambda>w. 100) []
              [?b, ?a] ?c (fresh_run () (\<lambda>k. None)) \<and>
            item_key (\<lambda>x. x) = item_key (\<lambda>x. x)) \<or>
           (example_run = process_district16 urlparse_basic example_send (\<lambda>w. 100) []
              [?b, ?a] ?c (fresh_run () (\<lambda>k. None)) \<and>
            item_key (\<lambda>x. x) = item_key16)"
    by (simp add: example_run_def)
  have q: "(example_run16 = process_district urlparse_basic (\<lambda>x. x) example_send (\<lambda>w. 100) []
              [?b, ?a] ?c (fresh_run () (\<lambda>k. None)) \<and>
            item_key16 = item_key (\<lambda>x. x)) \<or>
           (example_run16 = process_district16 urlparse_basic example_send (\<lambda>w. 100) []
              [?b, ?a] ?c (fresh_run () (\<lambda>k. None)) \<and>
            item_key16 = item_key16)"
    by (simp add: example_run16_def)
  note t = process_district_check_send_record[OF p]
  note u = process_district_check_send_record[OF q]
  have ne: "ascii ''b||||@src'' \<noteq> ascii ''a||||@src''" "ascii ''b | @src'' \<noteq> ascii ''a | @src''"
    by (simp_all add: ascii_def)
  have "events example_run = [Query ?c (ascii ''a||||@src'') False] @ Dispatch ?c ?a True #
          [Written ?c (ascii ''a||||@src''), Query ?c (ascii ''b||||@src'') False,
           Dispatch ?c ?b False]"
    using example_events by simp
  then have "already_sent (store example_run) ?c (item_key (\<lambda>x. x) ?a)" using t by blast
  then have a: "already_sent (store example_run) ?c (ascii ''a||||@src'')"
    unfolding example_keys .
  have "\<not> (\<exists>it. Dispatch ?c it True \<in> set (events example_run) \<and>
              ascii ''b||||@src'' = item_key (\<lambda>x. x) it)"
    unfolding example_events using ne example_keys by auto
  moreover have "\<not> already_sent (\<lambda>k. None) ?c (ascii ''b||||@src'')"
    by (simp add: already_sent_def)
  ultimately have b: "\<not> already_sent (store example_run) ?c (ascii ''b||||@src'')"
    using t by blast
  have "events example_run16 = [Query ?c (ascii ''a | @src'') False] @ Dispatch ?c ?a True #
          [Written ?c (ascii ''a | @src''), Query ?c (ascii ''b | @src'') False,
           Dispatch ?c ?b False]"
    using example_events16 by simp
  then have "already_sent (store example_run16) ?c (item_key16 ?a)" using u by blast
  then have a16: "already_sent (store example_run16) ?c (ascii ''a | @src'')"
    unfolding example_keys .
  have "\<not> (\<exists>it. Dispatch ?c it True \<in> set (events example_run16) \<and>
              ascii ''b | @src'' = item_key16 it)"
    unfolding example_events16 using ne example_keys by auto
  moreover have "\<not> already_sent (\<lambda>k. None) ?c (ascii ''b | @src'')"
    by (simp add: already_sent_def)
  ultimately have b16: "\<not> already_sent (store example_run16) ?c (ascii ''b | @src'')"
    using u by blast
  show ?thesis using example_events example_events16 a b a16 b16 by simp
qed

section \<open>The download of media\<close>

lemma read_body_abort:
  "no_error pre \<Longrightarrow> tot + length (chunk_bytes pre) \<le> max_bytes \<Longrightarrow>
   max_bytes < tot + length (chunk_bytes pre) + length c \<Longrightarrow>
   read_body max_bytes (pre @ Chunk c # post) tot buf = (None, length pre + 1)"
proof (induction pre arbitrary: tot buf)
  case Nil
  then show ?case by auto
next
  case (Cons a pre)
  show ?case
  proof (cases a)
    case (Chunk d)
    have ne: "no_error pre" using Cons.prems(1) by (simp add: no_error_def)
    have "read_body max_bytes (pre @ Chunk c # post) (tot + length d) (buf @ d)
            = (None, length pre + 1)"
      using Cons.prems Chunk by (intro Cons.IH[OF ne]) auto
    moreover have "read_body max_bytes (pre @ Chunk c # post) tot buf = (None, length pre + 1)"
      if "d = []"
      using Cons.prems Chunk that by (intro Cons.IH[OF ne]) auto
    ultimately show ?thesis using Chunk Cons.prems by auto
  next
    case ReadError
    then show ?thesis using Cons.prems(1) by (simp add: no_error_def)
  qed
qed

lemma read_body_complete:
  "read_body max_bytes items tot buf = (Some data, n) \<Longrightarrow> tot \<le> max_bytes \<Longrightarrow>
   n = length items \<and> no_error items \<and> data = buf @ chunk_bytes items \<and>
   tot + length (chunk_bytes items) \<le> max_bytes"
proof (induction items arbitrary: tot buf n)
  case Nil
  then show ?case by (auto simp: no_error_def)
next
  case (Cons a items)
  show ?case
  proof (cases a)
    case (Chunk d)
    show ?thesis
    proof (cases "d = []")
      case True
      obtain r m where rm: "read_body max_bytes items tot buf = (r, m)"
        by (cases "read_body max_bytes items tot buf")
      then have "r = Some data" "n = Suc m" using Cons.prems Chunk True by auto
      then show ?thesis using Cons.IH[of tot buf m] rm Chunk True Cons.prems(2)
        by (auto simp: no_error_def)
    next
      case False
      have le: "tot + length d \<le> max_bytes" using Cons.prems Chunk False by (auto split: if_splits)
      obtain r m where rm: "read_body max_bytes items (tot + length d) (buf @ d) = (r, m)"
        by (cases "read_body max_bytes items (tot + length d) (buf @ d)")
      then have "r = Some data" "n = Suc m" using Cons.prems Chunk False le by auto
      then show ?thesis using Cons.IH[of "tot + length d" "buf @ d" m] rm Chunk False le
        by (auto simp: no_error_def)
    qed
  next
    case ReadError
    then show ?thesis using Cons.prems by simp
  qed
qed

lemma read_body_within:
  "read_body max_bytes items 0 [] = (Some data, n) \<Longrightarrow>
   n = length items \<and> no_error items \<and> data = chunk_bytes items \<and> length data \<le> max_bytes"
  using read_body_complete[of max_bytes items 0 "[]" data n] by auto

lemma download_binary_Some:
  assumes "download_binary fetch url max_bytes = Some (name, data, knd)"
  shows "\<exists>r. fetch url = Some r \<and> status_code r < 400 \<and> no_error (body r) \<and>
             data = chunk_bytes (body r) \<and> data \<noteq> [] \<and> length data \<le> max_bytes"
proof -
  obtain r where r: "fetch url = Some r" using assms
    by (cases "fetch url") (auto simp: download_binary_def)
  have st: "status_code r < 400" using assms r
    by (auto simp: download_binary_def split: if_splits)
  obtain d n where dn: "read_body max_bytes (body r) 0 [] = (d, n)"
    by (cases "read_body max_bytes (body r) 0 []")
  have "d = Some data \<and> data \<noteq> []" using assms r st dn
    by (auto simp: download_binary_def split: if_splits option.splits)
  then show ?thesis using r st dn read_body_within[of max_bytes "body r" data n] by auto
qed

lemma prepare_media_find:
  "prepare_media fetch urls =
     (case find (\<lambda>u. download_binary fetch u MAX_BYTES \<noteq> None) (candidates urls) of
        None \<Rightarrow> None
      | Some u \<Rightarrow> download_binary fetch u MAX_BYTES)"
  by (induction urls) (auto simp: candidates_def Let_def split: option.splits)

lemma send_item_text_only:
  "prepare_media fetch (it_video_urls it) = None \<Longrightarrow>
   prepare_media fetch (it_photo_urls it) = None \<Longrightarrow>
   send_item fetch upload message chat it
     = message chat (build_caption (it_title it) (it_summary it))"
  by (simp add: send_item_def)

text \<open>
  Claim C8. The read of the body stops at the chunk that takes the count of bytes above
  the ceiling: \<open>read_body\<close> then returns nothing and has pulled that chunk and no later
  item of the stream; \<^verbatim>\<open>download_binary\<close> returns \<open>None\<close> in that case. When it returns an
  asset, the status is below 400, the stream was read without error to its end, and the
  data are all its bytes, at least one and no more than the ceiling. \<^verbatim>\<open>prepare_media\<close>
  returns the download of the first candidate address whose download succeeds under the
  ceiling of 50 MiB, and \<open>None\<close> when there is none; and when neither the videos nor the
  photos of an item yield an asset, \<^verbatim>\<open>send_item\<close> sends the caption as a plain message.
\<close>

theorem download_ceiling_and_first_candidate:
  "(no_error pre \<and> tot + length (chunk_bytes pre) \<le> max_bytes \<and>
    max_bytes < tot + length (chunk_bytes pre) + length c \<longrightarrow>
      read_body max_bytes (pre @ Chunk c # post) tot buf = (None, length pre + 1)) \<and>
   (fetch url = Some r \<and> body r = pre @ Chunk c # post \<and> no_error pre \<and>
    length (chunk_bytes pre) \<le> max_bytes \<and>
    max_bytes < length (chunk_bytes pre) + length c \<longrightarrow>
      download_binary fetch url max_bytes = None) \<and>
   (download_binary fetch url max_bytes = Some (name, data, knd) \<longrightarrow>
      (\<exists>r. fetch url = Some r \<and> status_code r < 400 \<and> no_error (body r) \<and>
           data = chunk_bytes (body r) \<and> data \<noteq> [] \<and> length data \<le> max_bytes)) \<and>
   prepare_media fetch urls =
     (case find (\<lambda>u. download_binary fetch u MAX_BYTES \<noteq> None) (candidates urls) of
        None \<Rightarrow> None
      | Some u \<Rightarrow> download_binary fetch u MAX_BYTES) \<and>
   MAX_BYTES = 52428800 \<and>
   (prepare_media fetch (it_video_urls it) = None \<and>
    prepare_media fetch (it_photo_urls it) = None \<longrightarrow>
      send_item fetch upload message chat it
        = message chat (build_caption (it_title it) (it_summary it)))"
proof -
  have a: "no_error pre \<and> tot + length (chunk_bytes pre) \<le> max_bytes \<and>
    max_bytes < tot + length (chunk_bytes pre) + length c \<longrightarrow>
      read_body max_bytes (pre @ Chunk c # post) tot buf = (None, length pre + 1)"
    using read_body_abort[of pre tot max_bytes c post buf] by blast
  have b: "fetch url = Some r \<and> body r = pre @ Chunk c # post \<and> no_error pre \<and>
    length (chunk_bytes pre) \<le> max_bytes \<and>
    max_bytes < length (chunk_bytes pre) + length c \<longrightarrow>
      download_binary fetch url max_bytes = None"
  proof
    assume h: "fetch url = Some r \<and> body r = pre @ Chunk c # post \<and> no_error pre \<and>
      length (chunk_bytes pre) \<le> max_bytes \<and> max_bytes < length (chunk_bytes pre) + length c"
    then have "read_body max_bytes (body r) 0 [] = (None, length pre + 1)"
      using read_body_abort[of pre 0 max_bytes c post "[]"] by simp
    then show "download_binary fetch url max_bytes = None"
      using h by (simp add: download_binary_def split: option.splits prod.splits)
  qed
  have c: "download_binary fetch url max_bytes = Some (name, data, knd) \<longrightarrow>
      (\<exists>r. fetch url = Some r \<and> status_code r < 400 \<and> no_error (body r) \<and>
           data = chunk_bytes (body r) \<and> data \<noteq> [] \<and> length data \<le> max_bytes)"
    using download_binary_Some[of fetch url max_bytes name data knd] by blast
  have d: "MAX_BYTES = 52428800" by (simp add: MAX_BYTES_def)
  show ?thesis using a b c d prepare_media_find[of fetch urls]
      send_item_text_only[of fetch it upload message chat] by blast
qed

lemma example_download:
  "download_binary example_fetch (ascii ''u'') 5 = Some (ascii ''media.png'', [1, 2], Image)"
proof -
  have l: "py_lower (ascii ''image/png'') = ascii ''image/png''"
    by (simp add: py_lower_def lower_cp_def ascii_def)
  have "classify_media (ascii ''image/png'') (ascii ''u'') = Some (ascii ''.png'', Image)"
    by (simp add: classify_media_def ascii_def startswith_def)
  then show ?thesis by (simp add: download_binary_def example_fetch_def l) (simp add: ascii_def)
qed

text \<open>
  With a ceiling of 5 bytes: a stream of chunks of 3, 3 and 1 bytes is abandoned at its
  second chunk; a body of 2 bytes is downloaded; an item without media is sent as text.
\<close>

theorem download_ceiling_and_first_candidate_witness:
  "read_body 5 [Chunk [1, 2, 3], Chunk [4, 5, 6], Chunk [7]] 0 [] = (None, 2) \<and>
   download_binary example_fetch (ascii ''u'') 5 = Some (ascii ''media.png'', [1, 2], Image) \<and>
   length [1, 2 :: nat] \<le> 5 \<and>
   send_item example_fetch (\<lambda>c a t. True) (\<lambda>c t. length t \<le> 3)
       (ascii ''@news'')
       \<lparr>it_title = [], it_summary = [], it_source = [], it_raw = [],
        it_published = None, it_photo_urls = [], it_video_urls = []\<rparr>
     = (length (build_caption [] []) \<le> 3)"
proof -
  let ?it = "\<lparr>it_title = [], it_summary = [], it_source = [], it_raw = [],
        it_published = None, it_photo_urls = [], it_video_urls = []\<rparr>"
  note t = download_ceiling_and_first_candidate[of "[Chunk [1, 2, 3]]" 0 5 "[4, 5, 6]"
      "[Chunk [7]]" "[]" example_fetch "ascii ''u''" _ "ascii ''media.png''" "[1, 2]" Image
      "[]" ?it "\<lambda>c a t. True" "\<lambda>c t. length t \<le> 3" "ascii ''@news''"]
  have 1: "read_body 5 [Chunk [1, 2, 3], Chunk [4, 5, 6], Chunk [7]] 0 [] = (None, 2)"
    using t by (simp add: no_error_def)
  have 2: "length [1, 2 :: nat] \<le> 5" using t example_download by blast
  have 3: "send_item example_fetch (\<lambda>c a t. True) (\<lambda>c t. length t \<le> 3) (ascii ''@news'') ?it
     = (length (build_caption [] []) \<le> 3)"
    using t by simp
  show ?thesis using 1 2 3 example_download by simp
qed

section \<open>Chat identifiers\<close>

lemma rstrip_prefix: "rev (dropWhile P (rev y)) @ rev (takeWhile P (rev y)) = y"
proof -
  have "rev (takeWhile P (rev y) @ dropWhile P (rev y)) = y" by simp
  then show ?thesis by (simp only: rev_append)
qed

lemma py_strip_stripped: "stripped (py_strip x)"
proof -
  define y where "y = dropWhile is_space x"
  define z where "z = rev (dropWhile is_space (rev y))"
  have pz: "py_strip x = z" by (simp add: py_strip_def y_def z_def)
  show ?thesis
  proof (cases "z = []")
    case True
    then show ?thesis by (simp add: pz stripped_def)
  next
    case False
    have "last z = hd (dropWhile is_space (rev y))"
      using False by (simp add: z_def last_rev)
    moreover have "dropWhile is_space (rev y) \<noteq> []"
    proof
      assume "dropWhile is_space (rev y) = []"
      then have "z = []" by (simp only: z_def rev.simps)
      with False show False by simp
    qed
    then have "\<not> is_space (hd (dropWhile is_space (rev y)))" by (rule hd_dropWhile)
    ultimately have l: "\<not> is_space (last z)" by simp
    have "z @ rev (takeWhile is_space (rev y)) = y" unfolding z_def by (rule rstrip_prefix)
    then have "hd z = hd y" using False by (metis hd_append2)
    moreover have "y \<noteq> []"
    proof
      assume "y = []"
      then have "z = []" by (simp add: z_def)
      with False show False by simp
    qed
    then have "\<not> is_space (hd y)" unfolding y_def by (rule hd_dropWhile)
    ultimately have "\<not> is_space (hd z)" by simp
    then show ?thesis using l by (simp add: pz stripped_def)
  qed
qed

lemma py_strip_id: "stripped x \<Longrightarrow> py_strip x = x"
proof (cases "x = []")
  case True
  then show ?thesis by (simp add: py_strip_def)
next
  case False
  assume "stripped x"
  then have h: "\<not> is_space (hd x)" and l: "\<not> is_space (last x)"
    using False by (simp_all add: stripped_def)
  have a: "dropWhile is_space x = x" using False h by (cases x) auto
  obtain a r where ar: "rev x = a # r" using False by (cases "rev x") auto
  have "hd (rev x) = last x" using False by (simp add: hd_rev)
  then have "a = last x" using ar by simp
  then have "dropWhile is_space (a # r) = a # r" using l by simp
  then have "dropWhile is_space (rev x) = rev x" by (simp only: ar)
  then show ?thesis using a by (simp add: py_strip_def)
qed

lemma py_strip_idem: "py_strip (py_strip x) = py_strip x"
  by (rule py_strip_id) (rule py_strip_stripped)

lemma rep_cls_consumed:
  "c \<in> set (rep_cls k lo hi p s) \<Longrightarrow>
   \<exists>u. s = u @ snd c \<and> (\<forall>x \<in> set u. cc_mem k x) \<and> lo \<le> length u"
proof (induction s arbitrary: lo hi p)
  case Nil
  then show ?case by (auto split: if_splits)
next
  case (Cons x xs)
  from Cons.prems consider
    (go) "cc_mem k x" "hi \<noteq> Some 0"
         "c \<in> set (rep_cls k (lo - 1) (map_option (\<lambda>h. h - 1) hi) (Some x) xs)"
    | (stop) "lo = 0" "c = (p, x # xs)"
    by (auto split: if_splits)
  then show ?case
  proof cases
    case go
    from Cons.IH[OF go(3)] obtain u where
      "xs = u @ snd c" "\<forall>y \<in> set u. cc_mem k y" "lo - 1 \<le> length u" by blast
    then show ?thesis using go(1) by (intro exI[of _ "x # u"]) auto
  next
    case stop
    then show ?thesis by (intro exI[of _ "[]"]) auto
  qed
qed

lemma username_chars:
  assumes "re_fullmatch USERNAME_RE u"
  shows "u \<noteq> [] \<and> (\<forall>x \<in> set u. cc_mem NAME_CHAR x)"
proof -
  from assms obtain c where c: "c \<in> set (rep_cls NAME_CHAR 5 (Some 32) None u)" "snd c = []"
    by (auto simp: re_fullmatch_def USERNAME_RE_def list_ex_iff)
  from rep_cls_consumed[OF c(1)] c(2) show ?thesis by auto
qed

lemma name_char_not_space: "cc_mem NAME_CHAR x \<Longrightarrow> \<not> is_space x"
  by (auto simp: NAME_CHAR_def is_space_def)

lemma at_username_stripped:
  assumes "re_fullmatch USERNAME_RE u"
  shows "py_strip (64 # u) = 64 # u"
proof (rule py_strip_id)
  have u: "u \<noteq> []" "\<forall>x \<in> set u. \<not> is_space x"
    using username_chars[OF assms] name_char_not_space by auto
  then have "\<not> is_space (last u)" by simp
  moreover have "\<not> is_space 64" by (simp add: is_space_def)
  ultimately show "stripped (64 # u)" using u(1) by (simp add: stripped_def)
qed

lemma normalize_chat_str_cases:
  "normalize_chat_str up s = py_strip s \<or>
   (\<exists>u. normalize_chat_str up s = 64 # u \<and> re_fullmatch USERNAME_RE u)"
  by (simp add: normalize_chat_str_def Let_def split: option.splits prod.splits)

lemma normalize_chat_str_fixed:
  assumes "py_strip s = s"
  shows "normalize_chat_str up (normalize_chat_str up s) = normalize_chat_str up s"
proof -
  consider (same) "normalize_chat_str up s = s"
    | (user) u where "normalize_chat_str up s = 64 # u" "re_fullmatch USERNAME_RE u"
    using assms normalize_chat_str_cases[of up s] by auto
  then show ?thesis
  proof cases
    case same
    then show ?thesis by simp
  next
    case user
    have "py_strip (64 # u) = 64 # u" by (rule at_username_stripped[OF user(2)])
    then have "normalize_chat_str up (64 # u) = 64 # u"
      by (simp add: normalize_chat_str_def startswith_def)
    then show ?thesis using user(1) by simp
  qed
qed

lemma normalize_chat_str_strip:
  "normalize_chat_str up s = normalize_chat_str up (py_strip s)"
  by (simp add: normalize_chat_str_def py_strip_idem)

lemma normalize_chat_str_idem:
  "normalize_chat_str up (normalize_chat_str up s) = normalize_chat_str up s"
  using normalize_chat_str_fixed[of "py_strip s" up] normalize_chat_str_strip[of up s]
  by (simp add: py_strip_idem)

text \<open>
  Claim C10, as the code has it. \<^verbatim>\<open>normalize_chat_id\<close> is idempotent; an integer is
  returned unchanged; a string that begins with \<^verbatim>\<open>@\<close> once stripped of the white space
  at its ends is returned so stripped; and a string is returned otherwise than stripped
  only when it is an address of \<^verbatim>\<open>t.me\<close> or \<^verbatim>\<open>telegram.me\<close> whose path holds none of the
  markers of an invitation and whose first segment is a user name of 5 to 32 letters,
  digits and underscores: the result is then \<^verbatim>\<open>@\<close> and that first segment, whatever
  follows it in the path.
\<close>

theorem normalize_chat_id_idempotent:
  "normalize_chat_id up (normalize_chat_id up chat) = normalize_chat_id up chat \<and>
   normalize_chat_id up (ChatInt n) = ChatInt n \<and>
   (startswith (py_strip s) [64] \<longrightarrow> normalize_chat_id up (ChatStr s) = ChatStr (py_strip s)) \<and>
   (normalize_chat_id up (ChatStr s) \<noteq> ChatStr (py_strip s) \<longrightarrow>
      (\<exists>netloc upath path username.
         (startswith (py_strip s) (ascii ''http://'') \<or> startswith (py_strip s) (ascii ''https://'')) \<and>
         up (py_strip s) = Some (netloc, upath) \<and>
         (endswith netloc (ascii ''t.me'') \<or> endswith netloc (ascii ''telegram.me'')) \<and>
         path = strip_chars [47] (if upath = [] then [47] else upath) \<and>
         path \<noteq> [] \<and>
         \<not> contains path (ascii ''+'') \<and> \<not> contains path (ascii ''joinchat'') \<and>
         \<not> contains path (ascii ''addstickers'') \<and> \<not> contains path (ascii ''s/'') \<and>
         username = hd (split_on 47 path) \<and>
         re_fullmatch USERNAME_RE username \<and>
         normalize_chat_id up (ChatStr s) = ChatStr (64 # username)))"
proof -
  have a: "normalize_chat_id up (normalize_chat_id up chat) = normalize_chat_id up chat"
    by (cases chat) (simp_all add: normalize_chat_id_def normalize_chat_str_idem)
  have b: "normalize_chat_id up (ChatInt n) = ChatInt n"
    by (simp add: normalize_chat_id_def)
  have c: "startswith (py_strip s) [64] \<longrightarrow> normalize_chat_id up (ChatStr s) = ChatStr (py_strip s)"
    by (simp add: normalize_chat_id_def normalize_chat_str_def Let_def)
  have d: "normalize_chat_id up (ChatStr s) \<noteq> ChatStr (py_strip s) \<longrightarrow>
      (\<exists>netloc upath path username.
         (startswith (py_strip s) (ascii ''http://'') \<or> startswith (py_strip s) (ascii ''https://'')) \<and>
         up (py_strip s) = Some (netloc, upath) \<and>
         (endswith netloc (ascii ''t.me'') \<or> endswith netloc (ascii ''telegram.me'')) \<and>
         path = strip_chars [47] (if upath = [] then [47] else upath) \<and>
         path \<noteq> [] \<and>
         \<not> contains path (ascii ''+'') \<and> \<not> contains path (ascii ''joinchat'') \<and>
         \<not> contains path (ascii ''addstickers'') \<and> \<not> contains path (ascii ''s/'') \<and>
         username = hd (split_on 47 path) \<and>
         re_fullmatch USERNAME_RE username \<and>
         normalize_chat_id up (ChatStr s) = ChatStr (64 # username))"
    by (auto simp: normalize_chat_id_def normalize_chat_str_def Let_def
             split: if_splits option.splits prod.splits)
  show ?thesis using a b c d by blast
qed

lemma example_urlparse:
  "urlparse_basic (ascii ''https://t.me/durov/123'') = Some (ascii ''t.me'', ascii ''/durov/123'')"
  by (simp add: urlparse_basic_def cut_params_def startswith_def Let_def ascii_def)

lemma example_username: "re_fullmatch USERNAME_RE (ascii ''durov'')"
  by (simp add: re_fullmatch_def USERNAME_RE_def NAME_CHAR_def ascii_def)

lemma example_message_link:
  "normalize_chat_str urlparse_basic (ascii ''https://t.me/durov/123'') = ascii ''@durov''"
proof -
  have s: "py_strip (ascii ''https://t.me/durov/123'') = ascii ''https://t.me/durov/123''"
    by (simp add: py_strip_def is_space_def ascii_def)
  have p: "strip_chars [47] (ascii ''/durov/123'') = ascii ''durov/123''"
    by (simp add: strip_chars_def rstrip_chars_def ascii_def)
  have c: "\<not> contains (ascii ''durov/123'') (ascii ''+'')"
    "\<not> contains (ascii ''durov/123'') (ascii ''joinchat'')"
    "\<not> contains (ascii ''durov/123'') (ascii ''addstickers'')"
    "\<not> contains (ascii ''durov/123'') (ascii ''s/'')"
    by (simp_all add: startswith_def ascii_def)
  have u: "hd (split_on 47 (ascii ''durov/123'')) = ascii ''durov''"
    by (simp add: ascii_def)
  have e: "endswith (ascii ''t.me'') (ascii ''t.me'')" by (simp add: endswith_def)
  have h: "startswith (ascii ''https://t.me/durov/123'') (ascii ''https://'')"
    "\<not> startswith (ascii ''https://t.me/durov/123'') [64]"
    by (simp_all add: startswith_def ascii_def)
  have n: "ascii ''https://t.me/durov/123'' \<noteq> []" "ascii ''/durov/123'' \<noteq> []"
    "ascii ''durov/123'' \<noteq> []"
    by (simp_all add: ascii_def)
  show ?thesis
    unfolding normalize_chat_str_def Let_def s
    using example_urlparse p c u e h n example_username
    by (simp add: ascii_def)
qed

lemma example_at_trailing:
  "normalize_chat_str urlparse_basic (ascii ''@abc '') = ascii ''@abc''"
  by (simp add: normalize_chat_str_def Let_def py_strip_def is_space_def startswith_def ascii_def)

text \<open>
  A string that begins with \<^verbatim>\<open>@\<close> and ends with a space is not returned unchanged; and
  the address of a message, \<^verbatim>\<open>https://t.me/durov/123\<close>, whose path is not a bare user
  name, is rewritten to \<^verbatim>\<open>@durov\<close>.
\<close>

theorem normalize_chat_id_counterexample:
  "startswith (ascii ''@abc '') [64] \<and>
   normalize_chat_id urlparse_basic (ChatStr (ascii ''@abc '')) = ChatStr (ascii ''@abc'') \<and>
   ascii ''@abc'' \<noteq> ascii ''@abc '' \<and>
   urlparse_basic (ascii ''https://t.me/durov/123'') = Some (ascii ''t.me'', ascii ''/durov/123'') \<and>
   normalize_chat_id urlparse_basic (ChatStr (ascii ''https://t.me/durov/123''))
     = ChatStr (ascii ''@durov'')"
  using example_urlparse
  by (simp add: normalize_chat_id_def example_at_trailing example_message_link)
     (simp add: startswith_def ascii_def)

text \<open>
  The same two strings, as instances of the statement.
\<close>

theorem normalize_chat_id_idempotent_witness:
  "normalize_chat_id urlparse_basic (ChatStr (ascii ''@abc '')) = ChatStr (ascii ''@abc'') \<and>
   normalize_chat_id urlparse_basic (ChatStr (ascii ''@abc'')) = ChatStr (ascii ''@abc'') \<and>
   normalize_chat_id urlparse_basic (ChatStr (ascii ''https://t.me/durov/123''))
     = ChatStr (64 # ascii ''durov'') \<and>
   re_fullmatch USERNAME_RE (hd (split_on 47 (strip_chars [47] (ascii ''/durov/123''))))"
proof -
  have s1: "py_strip (ascii ''@abc '') = ascii ''@abc''"
    by (simp add: py_strip_def is_space_def ascii_def)
  have s2: "py_strip (ascii ''https://t.me/durov/123'') = ascii ''https://t.me/durov/123''"
    by (simp add: py_strip_def is_space_def ascii_def)
  note t1 = normalize_chat_id_idempotent[of urlparse_basic "ChatStr (ascii ''@abc '')" 0 "ascii ''@abc ''"]
  note t2 = normalize_chat_id_idempotent[of urlparse_basic "ChatStr (ascii ''@abc '')" 0
      "ascii ''https://t.me/durov/123''"]
  have a: "normalize_chat_id urlparse_basic (ChatStr (ascii ''@abc '')) = ChatStr (ascii ''@abc'')"
    using t1 unfolding s1 by (simp add: startswith_def ascii_def)
  have b: "normalize_chat_id urlparse_basic (ChatStr (ascii ''@abc'')) = ChatStr (ascii ''@abc'')"
    using t1 a by simp
  have c: "normalize_chat_id urlparse_basic (ChatStr (ascii ''https://t.me/durov/123''))
     = ChatStr (64 # ascii ''durov'')"
    by (simp only: normalize_chat_id_def chat.case example_message_link) (simp add: ascii_def)
  have "normalize_chat_id urlparse_basic (ChatStr (ascii ''https://t.me/durov/123''))
          \<noteq> ChatStr (py_strip (ascii ''https://t.me/durov/123''))"
    unfolding s2 c by (simp add: ascii_def)
  then have d: "re_fullmatch USERNAME_RE (hd (split_on 47 (strip_chars [47] (ascii ''/durov/123''))))"
    using t2 unfolding s2 example_urlparse by (auto simp: ascii_def)
  show ?thesis using a b c d by simp
qed

section \<open>Links in the sanitized text\<close>



lemma rep1_step:
  "rep_cls k (Suc 0) None p (x # xs) = (if cc_mem k x then rep_cls k 0 None (Some x) xs else [])"
  by simp





































section \<open>The caption\<close>









lemma stripped_append:
  "a \<noteq> [] \<Longrightarrow> b \<noteq> [] \<Longrightarrow> \<not> is_space (hd a) \<Longrightarrow> \<not> is_space (last b) \<Longrightarrow> stripped (a @ m @ b)"
  by (simp add: stripped_def)




section \<open>The advertisement classifier\<close>

lemma wordb_seq_empty: "rx_match (seqs (WordB # r # rs)) (None, []) = []"
  by (simp add: at_word_boundary_def)

lemma ad_keywords_empty: "\<not> re_found AD_KEYWORDS []"
  by (simp add: re_found_def AD_KEYWORDS_def wordb_seq_empty del: seqs.simps)

lemma ad_keywords17_empty: "\<not> re_found AD_KEYWORDS17 []"
  by (simp add: re_found_def AD_KEYWORDS17_def wordb_seq_empty del: seqs.simps)

lemma cta_empty: "\<not> re_found CTA_RE []"
  by (simp add: re_found_def CTA_RE_def wordb_seq_empty del: seqs.simps)

lemma price_empty: "\<not> re_found PRICE_RE []"
  by (simp add: re_found_def PRICE_RE_def wordb_seq_empty del: seqs.simps)

lemma worktime_empty: "\<not> re_found WORKTIME_RE []"
  by (simp add: re_found_def WORKTIME_RE_def wordb_seq_empty del: seqs.simps)

lemma worktime17_empty: "\<not> re_found WORKTIME_RE17 []"
  by (simp add: re_found_def WORKTIME_RE17_def wordb_seq_empty del: seqs.simps)

lemma phone_empty: "\<not> re_found PHONE_RE []"
  by (simp add: re_found_def PHONE_RE_def ascii_def lits_def step_if_def)

lemma looks_like_ad_fired: "looks_like_ad t = (2 \<le> fired (py_lower t))"
proof (cases "t = []")
  case True
  then show ?thesis
    by (simp add: looks_like_ad_def fired_def detectors_def py_lower_def ad_keywords_empty
        cta_empty phone_empty price_empty worktime_empty)
next
  case False
  then show ?thesis
    by (simp add: looks_like_ad_def fired_def detectors_def Let_def)
qed

lemma looks_like_ad17_fired: "looks_like_ad17 t = (2 \<le> fired17 (py_lower t))"
proof (cases "t = []")
  case True
  then show ?thesis
    by (simp add: looks_like_ad17_def fired17_def detectors17_def py_lower_def
        ad_keywords17_empty phone_empty price_empty worktime17_empty)
next
  case False
  then show ?thesis
    by (simp add: looks_like_ad17_def fired17_def detectors17_def Let_def)
qed

text \<open>
  Claim C1, for both versions of the classifier. \<^verbatim>\<open>looks_like_ad\<close> returns true exactly
  when at least two of its detectors fire on the lower-cased text. In TotalNews19 the
  detectors are five: the keyword set, the call-to-action set, the phone number, the
  price and the business hours. TotalNews17 has no call-to-action detector (and a
  smaller keyword set and a stricter pattern for the hours): there the count is over
  four detectors. The empty text, for which the code returns early, fires none.
\<close>

theorem looks_like_ad_two_detectors:
  "looks_like_ad t = (2 \<le> fired (py_lower t)) \<and>
   fired (py_lower t) =
     (if re_found AD_KEYWORDS (py_lower t) then 1 else 0) +
     (if re_found CTA_RE (py_lower t) then 1 else 0) +
     (if re_found PHONE_RE (py_lower t) then 1 else 0) +
     (if re_found PRICE_RE (py_lower t) then 1 else 0) +
     (if re_found WORKTIME_RE (py_lower t) then 1 else 0) \<and>
   looks_like_ad17 t = (2 \<le> fired17 (py_lower t)) \<and>
   fired17 (py_lower t) =
     (if re_found AD_KEYWORDS17 (py_lower t) then 1 else 0) +
     (if re_found PHONE_RE (py_lower t) then 1 else 0) +
     (if re_found PRICE_RE (py_lower t) then 1 else 0) +
     (if re_found WORKTIME_RE17 (py_lower t) then 1 else 0)"
  using looks_like_ad_fired [of t] looks_like_ad17_fired [of t]
  by (simp add: fired_def detectors_def fired17_def detectors17_def)

lemma ex_low: "py_lower spec_example = spec_example_low"
  by (simp add: spec_example_def spec_example_low_def py_lower_def lower_cp_def)

lemma ex_phone: "re_found PHONE_RE spec_example_low"
  by (simp add: spec_example_low_def PHONE_RE_def rx_eval)

lemma ex_cta: "re_found CTA_RE spec_example_low"
  by (simp add: spec_example_low_def CTA_RE_def CTA_WORDS_def rx_eval)

lemma ex_keywords: "re_found AD_KEYWORDS spec_example_low"
  by (simp add: spec_example_low_def AD_KEYWORDS_def AD_WORDS_def AD_WORDS19_def rx_eval)

lemma ex_keywords17: "\<not> re_found AD_KEYWORDS17 spec_example_low"
  by (simp add: spec_example_low_def AD_KEYWORDS17_def AD_WORDS_def AD_WORDS17_def rx_eval)

lemma ex_price: "\<not> re_found PRICE_RE spec_example_low"
  by (simp add: spec_example_low_def PRICE_RE_def rx_eval)

lemma ex_worktime17: "\<not> re_found WORKTIME_RE17 spec_example_low"
  by (simp add: spec_example_low_def WORKTIME_RE17_def rx_eval)

lemma ex_worktime: "\<not> re_found WORKTIME_RE spec_example_low"
  by (simp add: spec_example_low_def WORKTIME_RE_def rx_eval)

text \<open>
  The example of the specification fires three of the five detectors of TotalNews19
  (keyword, call to action and phone), which classifies it as an advertisement. In
  TotalNews17 only the phone detector fires, since the keyword \<^verbatim>\<open>skidk\<close> must end at a
  word boundary and there is no call-to-action detector: the text is not classified as
  an advertisement there, although two of the five detectors of the claim fire on it.
\<close>

theorem looks_like_ad17_counterexample:
  "fired (py_lower spec_example) = 3 \<and> looks_like_ad spec_example \<and>
   re_found CTA_RE (py_lower spec_example) \<and> re_found PHONE_RE (py_lower spec_example) \<and>
   fired17 (py_lower spec_example) = 1 \<and> \<not> looks_like_ad17 spec_example"
proof -
  have n: "spec_example \<noteq> []" by (simp add: spec_example_def)
  have f: "fired spec_example_low = 3"
    using ex_keywords ex_cta ex_phone ex_price ex_worktime by (simp add: fired_def detectors_def)
  have g: "fired17 spec_example_low = 1"
    using ex_keywords17 ex_phone ex_price ex_worktime17 by (simp add: fired17_def detectors17_def)
  have a: "looks_like_ad spec_example"
    using n ex_keywords ex_cta unfolding looks_like_ad_def Let_def ex_low by simp
  have b: "\<not> looks_like_ad17 spec_example"
    using n ex_keywords17 ex_phone ex_price ex_worktime17
    unfolding looks_like_ad17_def Let_def ex_low by simp
  show ?thesis unfolding ex_low using f g a b ex_cta ex_phone by simp
qed

section \<open>Dropped messages\<close>

lemma strip_urls_Nil: "strip_urls [] = []"
  by (simp add: strip_urls_def URL_RE_def py_strip_def re_sub.simps rx_eval)

lemma remove_mentions_Nil: "remove_mentions [] = []"
  by (simp add: remove_mentions_def MENTION_RE_def NAME_CHAR_def py_strip_def re_sub.simps rx_eval)

lemma strip_hashtags_Nil: "strip_hashtags_simple [] = []"
  by (simp add: strip_hashtags_simple_def HASHTAG_RE_def re_sub.simps rx_eval)

lemma remove_sender_Nil: "remove_sender_phrases [] = []"
  by (simp add: remove_sender_phrases_def SENDER_PATTERNS_def re_sub.simps rx_eval)

lemma drop_after_Nil: "drop_after_subscribe_calls [] = []"
  by (simp add: drop_after_subscribe_calls_def)

lemma collapse_Nil: "collapse_ws_keep_newlines [] = []"
  by (simp add: collapse_ws_keep_newlines_def BLANKS_RE_def NEWLINES3_RE_def py_strip_def
      re_sub.simps rx_eval)

lemma sanitize_Nil: "sanitize [] = []"
  by (simp add: sanitize_def strip_urls_Nil remove_mentions_Nil strip_hashtags_Nil
      remove_sender_Nil drop_after_Nil collapse_Nil)

lemma pinned_Nil: "\<not> re_found PINNED_PAT []"
  by (simp add: PINNED_PAT_def rx_eval)

text \<open>
  Claim C5. A message that has no timestamp and, after sanitization, no text, and no
  photo and no video address yields no post. More precisely, a message yields no post
  exactly when it is a short \<^verbatim>\<open>pinned\<close> marker, or has no timestamp, or has neither text
  nor photo nor video; a message without a text block has no text.
\<close>

theorem extract_message_drops_empty:
  "(message_datetime parse m = None \<and> sanitize (raw_text m) = [] \<and> message_photos m = [] \<and>
      message_videos m = []
      \<longrightarrow> extract_message parse m = None \<and> extract_posts parse [m] = []) \<and>
   ((extract_message parse m = None) =
      (pinned_marker m \<or> message_datetime parse m = None \<or>
       (sanitize (raw_text m) = [] \<and> message_photos m = [] \<and> message_videos m = []))) \<and>
   (msg_text m = None \<longrightarrow> sanitize (raw_text m) = [])"
  by (simp add: extract_message_def extract_posts_def raw_text_def sanitize_Nil Let_def
      split: option.splits)

text \<open>
  The message in which the selectors find nothing has no timestamp, no text and no media,
  and is dropped.
\<close>

theorem extract_message_drops_empty_witness:
  "message_datetime (\<lambda>v. None) empty_message = None \<and>
   sanitize (raw_text empty_message) = [] \<and>
   message_photos empty_message = [] \<and> message_videos empty_message = [] \<and>
   msg_text empty_message = None \<and>
   extract_message (\<lambda>v. None) empty_message = None \<and>
   extract_posts (\<lambda>v. None) [empty_message] = []"
  using extract_message_drops_empty [of "\<lambda>v. None" empty_message]
  by (simp add: empty_message_def message_datetime_def message_photos_def message_videos_def
      raw_text_def sanitize_Nil dedup_first_def)

end
